theory Spec2Isabelle
  imports Main "HOL-Library.Multiset"
begin

section \<open>Predicates of the policy engine: title and commit signatures\<close>

text \<open>
  A shallow embedding of the Go package \<^verbatim>\<open>predicate\<close>: the predicates \<^verbatim>\<open>Title\<close>
  (\<^verbatim>\<open>policy/predicate/title.go\<close>) and \<^verbatim>\<open>HasValidSignatures\<close>,
  \<^verbatim>\<open>HasValidSignaturesBy\<close>, \<^verbatim>\<open>HasValidSignaturesByKeys\<close> with the helper
  \<^verbatim>\<open>hasValidSignature\<close> (the signature file). A Go \<^verbatim>\<open>string\<close> is a byte sequence,
  here a \<^typ>\<open>string\<close>; an \<^verbatim>\<open>error\<close> is a value; a \<^verbatim>\<open>(bool, string, error)\<close>
  return is a triple whose last component is \<open>None\<close> for \<^verbatim>\<open>nil\<close>.
\<close>

subsection \<open>Errors and results\<close>

text \<open>
  An error is either one produced by a collaborator (the pull-request context, the
  actor-membership resolver), or the result of \<^verbatim>\<open>errors.Wrap(err, msg)\<close>.
\<close>

datatype error = Error string | Wrap error string

type_synonym result = "bool \<times> string \<times> error option"

text \<open>
  The signature predicates dereference \<^verbatim>\<open>c.Signature\<close>, a pointer: an evaluation either
  returns a result or panics on a nil pointer.
\<close>

datatype outcome = Returns result | Panics

subsection \<open>The data of a pull request\<close>

text \<open>
  Modelled from the spec: \<^verbatim>\<open>pull.SignatureType\<close> is declared in package \<^verbatim>\<open>pull\<close>, outside
  the two files of package \<^verbatim>\<open>predicate\<close> embedded here; the data model gives the
  enumeration GPG, SSH, other, none.
\<close>

datatype SignatureType = SignatureGpg | SignatureSSH | SignatureOther | SignatureNone

text \<open>
  Modelled from the spec: \<^verbatim>\<open>pull.Signature\<close>, \<^verbatim>\<open>pull.Commit\<close> and \<^verbatim>\<open>pull.Context\<close>
  are declared in package \<^verbatim>\<open>pull\<close> as well; the fields are those the predicates read.
  \<^verbatim>\<open>Commit.Signature\<close> is a pointer, \<open>None\<close> when it is \<^verbatim>\<open>nil\<close>. The context
  answers \<^verbatim>\<open>Title()\<close> with a string and \<^verbatim>\<open>Commits()\<close> with the commits or an error.
\<close>

record Signature =
  Type :: SignatureType
  IsValid :: bool
  State :: string
  Signer :: string
  KeyID :: string

record Commit =
  SHA :: string
  Signature :: "Signature option"

record Context =
  Title :: string
  Commits :: "error + Commit list"

subsection \<open>Formatting: \<^verbatim>\<open>%.10s\<close>\<close>

text \<open>
  \<^verbatim>\<open>fmt\<close> cuts the argument of \<^verbatim>\<open>%.10s\<close> after ten runes, counted by a \<^verbatim>\<open>range\<close> loop
  over the string. Such a loop decodes UTF-8: \<open>decoderune_width s\<close> is the number of
  bytes the first rune of \<open>s\<close> takes, one byte for every byte that does not start a
  well-formed encoding.
\<close>

definition byte_in :: "nat \<Rightarrow> nat \<Rightarrow> char \<Rightarrow> bool" where
  "byte_in lo hi b = (lo \<le> of_char b \<and> (of_char b :: nat) \<le> hi)"

fun decoderune_width :: "string \<Rightarrow> nat" where
  "decoderune_width [] = 0"
| "decoderune_width (b0 # bs) =
     (let x = (of_char b0 :: nat) in
      if x < 0x80 then 1
      else if 0xC2 \<le> x \<and> x \<le> 0xDF then
        (case bs of
           b1 # _ \<Rightarrow> if byte_in 0x80 0xBF b1 then 2 else 1
         | _ \<Rightarrow> 1)
      else if 0xE0 \<le> x \<and> x \<le> 0xEF then
        (case bs of
           b1 # b2 # _ \<Rightarrow>
             if byte_in (if x = 0xE0 then 0xA0 else 0x80) (if x = 0xED then 0x9F else 0xBF) b1
                \<and> byte_in 0x80 0xBF b2
             then 3 else 1
         | _ \<Rightarrow> 1)
      else if 0xF0 \<le> x \<and> x \<le> 0xF4 then
        (case bs of
           b1 # b2 # b3 # _ \<Rightarrow>
             if byte_in (if x = 0xF0 then 0x90 else 0x80) (if x = 0xF4 then 0x8F else 0xBF) b1
                \<and> byte_in 0x80 0xBF b2 \<and> byte_in 0x80 0xBF b3
             then 4 else 1
         | _ \<Rightarrow> 1)
      else 1)"

text \<open>The runes of a string, each as the bytes that encode it.\<close>

function runes :: "string \<Rightarrow> string list" where
  "runes [] = []"
| "runes (b # bs) =
     take (decoderune_width (b # bs)) (b # bs) # runes (drop (decoderune_width (b # bs)) (b # bs))"
  by pat_completeness auto
termination
proof (relation "measure length")
  show "wf (measure length)" by simp
next
  fix b :: char and bs :: string
  have "0 < decoderune_width (b # bs)"
    by (simp add: Let_def split: list.splits)
  then show "(drop (decoderune_width (b # bs)) (b # bs), b # bs) \<in> measure length"
    by simp
qed

text \<open>
  \<^verbatim>\<open>fmt.truncateString\<close>: \<^verbatim>\<open>for i := range s { n--; if n < 0 { return s[:i] } }; return s\<close>.
  The loop state is the precision left, the bytes before position \<open>i\<close> and the bytes
  from position \<open>i\<close> on.
\<close>

function truncate_loop :: "nat \<Rightarrow> string \<Rightarrow> string \<Rightarrow> string" where
  "truncate_loop n pre [] = pre"
| "truncate_loop n pre (b # bs) =
     (if n = 0 then pre
      else truncate_loop (n - 1) (pre @ take (decoderune_width (b # bs)) (b # bs))
             (drop (decoderune_width (b # bs)) (b # bs)))"
  by pat_completeness auto
termination
proof (relation "measure (\<lambda>(n, pre, s). length s)")
  show "wf (measure (\<lambda>(n, pre, s). length s))" by simp
next
  fix n :: nat and pre :: string and b :: char and bs :: string
  have "0 < decoderune_width (b # bs)"
    by (simp add: Let_def split: list.splits)
  then show "((n - 1, pre @ take (decoderune_width (b # bs)) (b # bs),
               drop (decoderune_width (b # bs)) (b # bs)), (n, pre, b # bs))
             \<in> measure (\<lambda>(n, pre, s). length s)"
    by simp
qed

definition truncateString :: "nat \<Rightarrow> string \<Rightarrow> string" where
  "truncateString n s = truncate_loop n [] s"

subsection \<open>The signature-validity primitive\<close>

text \<open>
  \<^verbatim>\<open>hasValidSignature(ctx, commit)\<close> returns the pair \<^verbatim>\<open>(valid, reason)\<close>.
\<close>

definition hasValidSignature :: "Commit \<Rightarrow> bool \<times> string" where
  "hasValidSignature commit =
     (case Signature commit of
        None \<Rightarrow> (False, ''Commit '' @ truncateString 10 (SHA commit) @ '' has no signature'')
      | Some sg \<Rightarrow>
          if \<not> IsValid sg
          then (False, ''Commit '' @ truncateString 10 (SHA commit)
                         @ '' has an invalid signature due to '' @ State sg)
          else (True, ''''))"

subsection \<open>\<^verbatim>\<open>HasValidSignatures\<close>\<close>

text \<open>The loop over the commits, then the statements after it.\<close>

fun HasValidSignatures_loop :: "bool \<Rightarrow> Commit list \<Rightarrow> result" where
  "HasValidSignatures_loop pred [] =
     (if pred then (True, '''', None)
      else (False, ''All commits are signed and have valid signatures'', None))"
| "HasValidSignatures_loop pred (c # cs) =
     (case hasValidSignature c of
        (valid, desc) \<Rightarrow>
          if \<not> valid then (if pred then (False, desc, None) else (True, '''', None))
          else HasValidSignatures_loop pred cs)"

definition HasValidSignatures_Evaluate :: "bool \<Rightarrow> Context \<Rightarrow> result" where
  "HasValidSignatures_Evaluate pred prctx =
     (case Commits prctx of
        Inl err \<Rightarrow> (False, '''', Some (Wrap err ''failed to get commits''))
      | Inr commits \<Rightarrow> HasValidSignatures_loop pred commits)"

subsection \<open>Go maps used as sets of strings\<close>

text \<open>
  \<^verbatim>\<open>make(map[string]struct{})\<close> is the empty list of keys, \<^verbatim>\<open>m[k] = struct{}{}\<close> is
  \<^const>\<open>List.insert\<close> (the key is added when it is not there). A \<^verbatim>\<open>range\<close> over a map
  visits every key once, in an order the language leaves open: \<open>range_orders keys\<close>
  lists the possible orders.
\<close>

fun interleave :: "'a \<Rightarrow> 'a list \<Rightarrow> 'a list list" where
  "interleave x [] = [[x]]"
| "interleave x (y # ys) = (x # y # ys) # map ((#) y) (interleave x ys)"

fun range_orders :: "'a list \<Rightarrow> 'a list list" where
  "range_orders [] = [[]]"
| "range_orders (k # keys) = concat (map (interleave k) (range_orders keys))"

subsection \<open>\<^verbatim>\<open>HasValidSignaturesBy\<close>\<close>

text \<open>
  Modelled from the spec: \<^verbatim>\<open>common.Actors\<close> and its method \<^verbatim>\<open>IsActor\<close> are declared
  in package \<^verbatim>\<open>common\<close>. An actor specification is represented by the answers of
  \<^verbatim>\<open>IsActor(ctx, prctx, identity)\<close>: member or not, or a failure.
\<close>

record Actors =
  IsActor :: "Context \<Rightarrow> string \<Rightarrow> error + bool"

record HasValidSignaturesBy =
  Actors :: Actors

text \<open>
  The first loop: the validity primitive on every commit, the signers collected in the
  map \<open>signers\<close>. It ends with an early return, a panic, or the map.
\<close>

fun collect_signers :: "Commit list \<Rightarrow> string list \<Rightarrow> outcome + string list" where
  "collect_signers [] signers = Inr signers"
| "collect_signers (c # cs) signers =
     (case hasValidSignature c of
        (valid, desc) \<Rightarrow>
          if \<not> valid then Inl (Returns (False, desc, None))
          else (case Signature c of
                  None \<Rightarrow> Inl Panics
                | Some sg \<Rightarrow> collect_signers cs (List.insert (Signer sg) signers)))"

text \<open>
  The second loop, over the signers in the order \<^verbatim>\<open>range\<close> visits them, then the final
  return. \<open>quote\<close> is the rendering of \<^verbatim>\<open>%q\<close> (\<^verbatim>\<open>strconv.Quote\<close>).
\<close>

fun check_signers ::
  "(string \<Rightarrow> string) \<Rightarrow> HasValidSignaturesBy \<Rightarrow> Context \<Rightarrow> string list \<Rightarrow> result" where
  "check_signers quote pred prctx [] = (True, '''', None)"
| "check_signers quote pred prctx (signer # rest) =
     (case IsActor (Actors pred) prctx signer of
        Inl err \<Rightarrow> (False, '''', Some err)
      | Inr member \<Rightarrow>
          if \<not> member
          then (False, ''Contributor '' @ quote signer
                  @ '' does not meet the required membership conditions for signing'', None)
          else check_signers quote pred prctx rest)"

definition HasValidSignaturesBy_Evaluate ::
  "(string \<Rightarrow> string) \<Rightarrow> HasValidSignaturesBy \<Rightarrow> Context \<Rightarrow> outcome set" where
  "HasValidSignaturesBy_Evaluate quote pred prctx =
     (case Commits prctx of
        Inl err \<Rightarrow> {Returns (False, '''', Some (Wrap err ''failed to get commits''))}
      | Inr commits \<Rightarrow>
          (case collect_signers commits [] of
             Inl out \<Rightarrow> {out}
           | Inr signers \<Rightarrow>
               (\<lambda>order. Returns (check_signers quote pred prctx order))
                 ` set (range_orders signers)))"

subsection \<open>\<^verbatim>\<open>HasValidSignaturesByKeys\<close>\<close>

record HasValidSignaturesByKeys =
  KeyIDs :: "string list"

fun collect_keys :: "Commit list \<Rightarrow> string list \<Rightarrow> outcome + string list" where
  "collect_keys [] keys = Inr keys"
| "collect_keys (c # cs) keys =
     (case hasValidSignature c of
        (valid, desc) \<Rightarrow>
          if \<not> valid then Inl (Returns (False, desc, None))
          else (case Signature c of
                  None \<Rightarrow> Inl Panics
                | Some sg \<Rightarrow>
                    (case Type sg of
                       SignatureGpg \<Rightarrow> collect_keys cs (List.insert (KeyID sg) keys)
                     | _ \<Rightarrow> Inl (Returns (False, ''Commit '' @ truncateString 10 (SHA c)
                                    @ '' signature is not a GPG signature'', None)))))"

text \<open>The inner loop over \<^verbatim>\<open>pred.KeyIDs\<close>: the value of \<^verbatim>\<open>isValidKey\<close> at its end.\<close>

fun isValidKey :: "string \<Rightarrow> string list \<Rightarrow> bool" where
  "isValidKey key [] = False"
| "isValidKey key (acceptedKey # rest) =
     (if key = acceptedKey then True else isValidKey key rest)"

fun check_keys ::
  "(string \<Rightarrow> string) \<Rightarrow> HasValidSignaturesByKeys \<Rightarrow> string list \<Rightarrow> result" where
  "check_keys quote pred [] = (True, '''', None)"
| "check_keys quote pred (key # rest) =
     (if \<not> isValidKey key (KeyIDs pred)
      then (False, ''Key '' @ quote key
              @ '' does not meet the required key conditions for signing'', None)
      else check_keys quote pred rest)"

definition HasValidSignaturesByKeys_Evaluate ::
  "(string \<Rightarrow> string) \<Rightarrow> HasValidSignaturesByKeys \<Rightarrow> Context \<Rightarrow> outcome set" where
  "HasValidSignaturesByKeys_Evaluate quote pred prctx =
     (case Commits prctx of
        Inl err \<Rightarrow> {Returns (False, '''', Some (Wrap err ''failed to get commits''))}
      | Inr commits \<Rightarrow>
          (case collect_keys commits [] of
             Inl out \<Rightarrow> {out}
           | Inr keys \<Rightarrow>
               (\<lambda>order. Returns (check_keys quote pred order)) ` set (range_orders keys)))"

subsection \<open>\<^verbatim>\<open>Title\<close>\<close>

text \<open>
  Modelled from the spec: \<^verbatim>\<open>common.Regexp\<close> is declared in package \<^verbatim>\<open>common\<close>; a
  pattern is represented by its matching test on strings.
\<close>

type_synonym Regexp = "string \<Rightarrow> bool"

text \<open>
  Modelled from the spec: the helper \<^verbatim>\<open>anyMatches\<close> is defined in another file of the
  package; the matcher of a list of patterns tests whether any of them matches the
  string.
\<close>

definition anyMatches :: "Regexp list \<Rightarrow> string \<Rightarrow> bool" where
  "anyMatches re s = list_ex (\<lambda>r. r s) re"

record Title =
  Matches :: "Regexp list"
  NotMatches :: "Regexp list"

definition Title_Evaluate :: "Title \<Rightarrow> Context \<Rightarrow> result" where
  "Title_Evaluate pred prctx =
     (let title = Context.Title prctx in
      if length (Matches pred) > 0 \<and> anyMatches (Matches pred) title
      then (True, ''PR Title matches a Match pattern'', None)
      else if length (NotMatches pred) > 0 \<and> \<not> anyMatches (NotMatches pred) title
      then (True, ''PR Title doesn'' @ [CHR 0x27] @ ''t match a NotMatch pattern'', None)
      else (False, '''', None))"

subsection \<open>The predicate variants: \<^verbatim>\<open>Evaluate\<close> and \<^verbatim>\<open>Trigger\<close>\<close>

text \<open>
  Modelled from the spec: the constants \<^verbatim>\<open>common.TriggerPullRequest\<close> and
  \<^verbatim>\<open>common.TriggerCommit\<close> are declared in package \<^verbatim>\<open>common\<close>; a trigger is a set of
  event categories.
\<close>

datatype EventCategory = PullRequest | Commit

type_synonym Trigger = "EventCategory set"

definition TriggerPullRequest :: Trigger where
  "TriggerPullRequest = {PullRequest}"

definition TriggerCommit :: Trigger where
  "TriggerCommit = {Commit}"

text \<open>The four types that implement the interface \<^verbatim>\<open>Predicate\<close>.\<close>

datatype Predicate =
    Pred_Title Title
  | Pred_HasValidSignatures bool
  | Pred_HasValidSignaturesBy HasValidSignaturesBy
  | Pred_HasValidSignaturesByKeys HasValidSignaturesByKeys

fun Evaluate :: "(string \<Rightarrow> string) \<Rightarrow> Predicate \<Rightarrow> Context \<Rightarrow> outcome set" where
  "Evaluate quote (Pred_Title pred) prctx = {Returns (Title_Evaluate pred prctx)}"
| "Evaluate quote (Pred_HasValidSignatures pred) prctx =
     {Returns (HasValidSignatures_Evaluate pred prctx)}"
| "Evaluate quote (Pred_HasValidSignaturesBy pred) prctx =
     HasValidSignaturesBy_Evaluate quote pred prctx"
| "Evaluate quote (Pred_HasValidSignaturesByKeys pred) prctx =
     HasValidSignaturesByKeys_Evaluate quote pred prctx"

fun Trigger :: "Predicate \<Rightarrow> Trigger" where
  "Trigger (Pred_Title pred) = TriggerPullRequest"
| "Trigger (Pred_HasValidSignatures pred) = TriggerCommit"
| "Trigger (Pred_HasValidSignaturesBy pred) = TriggerCommit"
| "Trigger (Pred_HasValidSignaturesByKeys pred) = TriggerCommit"

subsection \<open>Example data\<close>

text \<open>
  A pull request with the given commits, commits with and without valid signatures, and
  actor specifications. \<open>quote_plain\<close> is what \<^verbatim>\<open>%q\<close> prints for a string of letters
  and digits: the string between double quotes.
\<close>

definition signed_by :: "SignatureType \<Rightarrow> string \<Rightarrow> string \<Rightarrow> Signature" where
  "signed_by ty signer key =
     \<lparr>Type = ty, IsValid = True, State = ''valid'', Signer = signer, KeyID = key\<rparr>"

definition commit_alice :: Commit where
  "commit_alice =
     \<lparr>SHA = ''a1b2c3d4e5f60718293a'', Signature = Some (signed_by SignatureGpg ''alice'' ''AAAA1111'')\<rparr>"

definition commit_bob :: Commit where
  "commit_bob =
     \<lparr>SHA = ''b1b2c3d4e5f60718293a'', Signature = Some (signed_by SignatureGpg ''bob'' ''BBBB2222'')\<rparr>"

definition commit_ssh :: Commit where
  "commit_ssh =
     \<lparr>SHA = ''c1b2c3d4e5f60718293a'', Signature = Some (signed_by SignatureSSH ''alice'' [])\<rparr>"

definition commit_unsigned :: Commit where
  "commit_unsigned = \<lparr>SHA = ''d1b2c3d4e5f60718293a'', Signature = None\<rparr>"

definition commit_bad :: Commit where
  "commit_bad =
     \<lparr>SHA = ''e1b2c3d4e5f60718293a'',
      Signature = Some \<lparr>Type = SignatureGpg, IsValid = False, State = ''bad_email'',
                        Signer = ''carol'', KeyID = ''CCCC3333''\<rparr>\<rparr>"

definition pull_request :: "string \<Rightarrow> Commit list \<Rightarrow> Context" where
  "pull_request title commits = \<lparr>Title = title, Commits = Inr commits\<rparr>"

definition no_commits :: "error \<Rightarrow> Context" where
  "no_commits err = \<lparr>Title = ''feat: add x'', Commits = Inl err\<rparr>"

definition members :: "string list \<Rightarrow> HasValidSignaturesBy" where
  "members users = \<lparr>Actors = \<lparr>IsActor = (\<lambda>prctx identity. Inr (identity \<in> set users))\<rparr>\<rparr>"

definition unresolved :: "error \<Rightarrow> HasValidSignaturesBy" where
  "unresolved err = \<lparr>Actors = \<lparr>IsActor = (\<lambda>prctx identity. Inl err)\<rparr>\<rparr>"

definition quote_plain :: "string \<Rightarrow> string" where
  "quote_plain s = CHR 0x22 # s @ [CHR 0x22]"

text \<open>The patterns \<^verbatim>\<open>^feat:\<close> and \<^verbatim>\<open>WIP\<close>.\<close>

definition re_feat :: Regexp where
  "re_feat s = (take 5 s = ''feat:'')"

fun re_WIP :: Regexp where
  "re_WIP [] = False"
| "re_WIP (c # s) = (take 3 (c # s) = ''WIP'' \<or> re_WIP s)"

section \<open>Properties\<close>

subsection \<open>The validity primitive and the formatting of the short hash\<close>

lemma hasValidSignature_valid:
  "fst (hasValidSignature c) \<longleftrightarrow> (\<exists>sg. Signature c = Some sg \<and> IsValid sg)"
  by (auto simp: hasValidSignature_def split: option.splits)

lemma hasValidSignature_reason:
  "snd (hasValidSignature c) = [] \<longleftrightarrow> fst (hasValidSignature c)"
  by (auto simp: hasValidSignature_def split: option.splits)

lemma truncate_loop_runes: "truncate_loop n pre s = pre @ concat (take n (runes s))"
proof (induction n pre s rule: truncate_loop.induct)
  case (1 n pre)
  show ?case by simp
next
  case (2 n pre b bs)
  show ?case
  proof (cases n)
    case 0
    then show ?thesis by simp
  next
    case (Suc m)
    with 2 show ?thesis by simp
  qed
qed

lemma truncateString_runes: "truncateString n s = concat (take n (runes s))"
  by (simp add: truncateString_def truncate_loop_runes)

lemma runes_ascii: "\<forall>b\<in>set s. (of_char b :: nat) < 0x80 \<Longrightarrow> runes s = map (\<lambda>b. [b]) s"
  by (induction s) simp_all

lemma concat_take_singletons: "concat (take n (map (\<lambda>b. [b]) s)) = take n s"
  by (induction s arbitrary: n) (simp_all add: take_Cons split: nat.splits)

subsection \<open>The orders of a \<^verbatim>\<open>range\<close> over a map\<close>

lemma mset_interleave: "ys \<in> set (interleave x xs) \<Longrightarrow> mset ys = add_mset x (mset xs)"
  by (induction xs arbitrary: ys) auto

lemma interleave_insert: "as @ x # bs \<in> set (interleave x (as @ bs))"
proof (induction as)
  case Nil
  show ?case by (cases bs) simp_all
next
  case (Cons a as)
  then show ?case by simp
qed

lemma range_orders_sound: "ys \<in> set (range_orders xs) \<Longrightarrow> mset ys = mset xs"
  by (induction xs arbitrary: ys) (auto dest: mset_interleave)

lemma range_orders_complete: "mset ys = mset xs \<Longrightarrow> ys \<in> set (range_orders xs)"
proof (induction xs arbitrary: ys)
  case Nil
  then show ?case by simp
next
  case (Cons x xs)
  from Cons.prems have "x \<in> set ys"
    by (metis list.set_intros(1) mset_eq_setD)
  then obtain as bs where ys: "ys = as @ x # bs"
    by (auto dest: split_list)
  with Cons.prems have "mset (as @ bs) = mset xs" by simp
  then have "as @ bs \<in> set (range_orders xs)" by (rule Cons.IH)
  moreover have "ys \<in> set (interleave x (as @ bs))"
    unfolding ys by (rule interleave_insert)
  ultimately show ?case by auto
qed

lemma set_range_orders: "set (range_orders xs) = {ys. mset ys = mset xs}"
  by (auto intro: range_orders_complete dest: range_orders_sound)

lemma set_range_orders_distinct:
  "distinct xs \<Longrightarrow> set (range_orders xs) = {ys. distinct ys \<and> set ys = set xs}"
  by (auto simp: set_range_orders set_eq_iff_mset_eq_distinct
      dest: mset_eq_setD mset_eq_imp_distinct_iff)

subsection \<open>Evaluation of the example commits\<close>

lemma example_commits_valid:
  "fst (hasValidSignature commit_alice)" "fst (hasValidSignature commit_bob)"
  "fst (hasValidSignature commit_ssh)"
  "\<not> fst (hasValidSignature commit_unsigned)" "\<not> fst (hasValidSignature commit_bad)"
  by (simp_all add: hasValidSignature_valid commit_alice_def commit_bob_def commit_ssh_def
      commit_unsigned_def commit_bad_def signed_by_def)

lemma example_commits_signature:
  "Signature commit_alice = Some (signed_by SignatureGpg ''alice'' ''AAAA1111'')"
  "Signature commit_bob = Some (signed_by SignatureGpg ''bob'' ''BBBB2222'')"
  "Signature commit_ssh = Some (signed_by SignatureSSH ''alice'' [])"
  "Signature commit_unsigned = None"
  by (simp_all add: commit_alice_def commit_bob_def commit_ssh_def commit_unsigned_def)

lemma hasValidSignature_commit_bad:
  "hasValidSignature commit_bad =
     (False, ''Commit e1b2c3d4e5 has an invalid signature due to bad_email'')"
  by (simp add: hasValidSignature_def commit_bad_def truncateString_def)

lemma hasValidSignature_commit_unsigned:
  "hasValidSignature commit_unsigned = (False, ''Commit d1b2c3d4e5 has no signature'')"
  by (simp add: hasValidSignature_def commit_unsigned_def truncateString_def)

subsection \<open>\<^verbatim>\<open>HasValidSignatures\<close>: the scan of the commits\<close>

lemma HasValidSignatures_loop_invalid:
  "\<forall>x\<in>set pre. fst (hasValidSignature x) \<Longrightarrow> \<not> fst (hasValidSignature c) \<Longrightarrow>
   HasValidSignatures_loop pred (pre @ c # rest) =
     (if pred then (False, snd (hasValidSignature c), None) else (True, [], None))"
  by (induction pre) (auto split: prod.splits)

lemma HasValidSignatures_loop_valid:
  "\<forall>x\<in>set commits. fst (hasValidSignature x) \<Longrightarrow>
   HasValidSignatures_loop pred commits =
     (if pred then (True, [], None)
      else (False, ''All commits are signed and have valid signatures'', None))"
  by (induction commits) (auto split: prod.splits)

text \<open>
  C1. The commits are \<open>pre @ c # rest\<close>, where \<open>c\<close> is the first commit the validity
  primitive judges invalid: \<^verbatim>\<open>HasValidSignatures(true)\<close> returns unsatisfied with the
  reason of \<open>c\<close> and \<^verbatim>\<open>HasValidSignatures(false)\<close> returns satisfied with the empty
  reason, whatever the later commits \<open>rest\<close> are. When every commit is valid,
  \<^verbatim>\<open>HasValidSignatures(true)\<close> returns satisfied with the empty reason and
  \<^verbatim>\<open>HasValidSignatures(false)\<close> returns unsatisfied with the reason
  "All commits are signed and have valid signatures".
\<close>

theorem HasValidSignatures_Evaluate_scan:
  assumes "Commits prctx = Inr commits"
  shows "(commits = pre @ c # rest \<and> (\<forall>x\<in>set pre. fst (hasValidSignature x))
            \<and> \<not> fst (hasValidSignature c) \<longrightarrow>
          HasValidSignatures_Evaluate True prctx = (False, snd (hasValidSignature c), None)
          \<and> HasValidSignatures_Evaluate False prctx = (True, [], None))
       \<and> ((\<forall>x\<in>set commits. fst (hasValidSignature x)) \<longrightarrow>
          HasValidSignatures_Evaluate True prctx = (True, [], None)
          \<and> HasValidSignatures_Evaluate False prctx =
              (False, ''All commits are signed and have valid signatures'', None))"
  using assms
  by (simp add: HasValidSignatures_Evaluate_def HasValidSignatures_loop_invalid
      HasValidSignatures_loop_valid)

theorem HasValidSignatures_Evaluate_scan_witness:
  "HasValidSignatures_Evaluate True
       (pull_request ''t'' [commit_alice, commit_bad, commit_unsigned])
     = (False, ''Commit e1b2c3d4e5 has an invalid signature due to bad_email'', None)
   \<and> HasValidSignatures_Evaluate False
       (pull_request ''t'' [commit_alice, commit_bad, commit_unsigned])
     = (True, [], None)
   \<and> HasValidSignatures_Evaluate True (pull_request ''t'' [commit_alice, commit_bob])
     = (True, [], None)
   \<and> HasValidSignatures_Evaluate False (pull_request ''t'' [commit_alice, commit_bob])
     = (False, ''All commits are signed and have valid signatures'', None)"
  using
    HasValidSignatures_Evaluate_scan
      [of "pull_request ''t'' [commit_alice, commit_bad, commit_unsigned]"
          "[commit_alice, commit_bad, commit_unsigned]" "[commit_alice]" commit_bad
          "[commit_unsigned]"]
    HasValidSignatures_Evaluate_scan
      [of "pull_request ''t'' [commit_alice, commit_bob]" "[commit_alice, commit_bob]"
          "[]" commit_alice "[]"]
  by (simp add: pull_request_def example_commits_valid hasValidSignature_commit_bad)

subsection \<open>The three cases of the validity primitive\<close>

text \<open>
  C4. \<^verbatim>\<open>hasValidSignature\<close> returns invalid with "Commit <short-sha> has no signature" when
  the signature is absent, invalid with "Commit <short-sha> has an invalid signature due
  to <State>" when the signature is present and \<^verbatim>\<open>IsValid\<close> is false, and valid with the
  empty reason otherwise. The short hash is the first ten characters (runes) of the hash;
  for a hash of ASCII characters, such as hexadecimal digits, these are its first ten bytes.
\<close>

theorem hasValidSignature_cases:
  "(Signature commit = None \<longrightarrow>
      hasValidSignature commit =
        (False, ''Commit '' @ concat (take 10 (runes (SHA commit))) @ '' has no signature''))
   \<and> (Signature commit = Some sg \<and> \<not> IsValid sg \<longrightarrow>
      hasValidSignature commit =
        (False, ''Commit '' @ concat (take 10 (runes (SHA commit)))
                 @ '' has an invalid signature due to '' @ State sg))
   \<and> (Signature commit = Some sg \<and> IsValid sg \<longrightarrow> hasValidSignature commit = (True, []))
   \<and> ((\<forall>b\<in>set (SHA commit). (of_char b :: nat) < 0x80) \<longrightarrow>
      concat (take 10 (runes (SHA commit))) = take 10 (SHA commit))"
  by (simp add: hasValidSignature_def truncateString_runes runes_ascii concat_take_singletons)

theorem hasValidSignature_cases_witness:
  "hasValidSignature commit_unsigned = (False, ''Commit d1b2c3d4e5 has no signature'')
   \<and> hasValidSignature commit_bad =
       (False, ''Commit e1b2c3d4e5 has an invalid signature due to bad_email'')
   \<and> hasValidSignature commit_alice = (True, [])
   \<and> concat (take 10 (runes (SHA commit_alice))) = ''a1b2c3d4e5''"
  using hasValidSignature_cases [of commit_unsigned "signed_by SignatureGpg [] []"]
    hasValidSignature_cases
      [of commit_bad "\<lparr>Type = SignatureGpg, IsValid = False, State = ''bad_email'',
                        Signer = ''carol'', KeyID = ''CCCC3333''\<rparr>"]
    hasValidSignature_cases [of commit_alice "signed_by SignatureGpg ''alice'' ''AAAA1111''"]
  by (simp add: commit_unsigned_def commit_bad_def commit_alice_def signed_by_def)

subsection \<open>\<^verbatim>\<open>HasValidSignaturesBy\<close>: the two loops\<close>

lemma collect_signers_valid:
  "\<forall>c\<in>set commits. fst (hasValidSignature c) \<Longrightarrow>
   \<exists>signers. collect_signers commits acc = Inr signers
     \<and> set signers = set acc \<union> (\<Union>c\<in>set commits. Signer ` set_option (Signature c))
     \<and> (distinct acc \<longrightarrow> distinct signers)"
proof (induction commits arbitrary: acc)
  case Nil
  show ?case by simp
next
  case (Cons c commits)
  from Cons.prems obtain sg where sg: "Signature c = Some sg" "fst (hasValidSignature c)"
    by (auto simp: hasValidSignature_valid)
  from Cons.prems have "\<forall>c\<in>set commits. fst (hasValidSignature c)" by simp
  from Cons.IH [OF this, of "List.insert (Signer sg) acc"]
  obtain signers where s: "collect_signers commits (List.insert (Signer sg) acc) = Inr signers"
      "set signers = set (List.insert (Signer sg) acc)
         \<union> (\<Union>c\<in>set commits. Signer ` set_option (Signature c))"
      "distinct (List.insert (Signer sg) acc) \<longrightarrow> distinct signers"
    by blast
  have "collect_signers (c # commits) acc = Inr signers"
    using sg s(1) by (simp add: case_prod_beta)
  moreover have "set signers = set acc
      \<union> (\<Union>c'\<in>set (c # commits). Signer ` set_option (Signature c'))"
    using s(2) sg(1) by auto
  moreover have "distinct acc \<longrightarrow> distinct signers"
    using s(3) by simp
  ultimately show ?case by blast
qed

lemma collect_signers_invalid:
  "\<forall>x\<in>set pre. fst (hasValidSignature x) \<Longrightarrow> \<not> fst (hasValidSignature c) \<Longrightarrow>
   collect_signers (pre @ c # rest) acc = Inl (Returns (False, snd (hasValidSignature c), None))"
proof (induction pre arbitrary: acc)
  case Nil
  then show ?case by (simp add: case_prod_beta)
next
  case (Cons x pre)
  from Cons.prems obtain sg where "Signature x = Some sg" "fst (hasValidSignature x)"
    by (auto simp: hasValidSignature_valid)
  with Cons show ?case by (simp add: case_prod_beta)
qed

lemma check_signers_members:
  "\<forall>s\<in>set order. IsActor (Actors pred) prctx s = Inr True \<Longrightarrow>
   check_signers quote pred prctx order = (True, [], None)"
  by (induction order) simp_all

lemma check_signers_cases:
  "(check_signers quote pred prctx order = (True, [], None)
      \<and> (\<forall>s\<in>set order. IsActor (Actors pred) prctx s = Inr True))
   \<or> (\<exists>s\<in>set order. IsActor (Actors pred) prctx s = Inr False
        \<and> check_signers quote pred prctx order =
            (False, ''Contributor '' @ quote s
               @ '' does not meet the required membership conditions for signing'', None))
   \<or> (\<exists>s\<in>set order. \<exists>err. IsActor (Actors pred) prctx s = Inl err
        \<and> check_signers quote pred prctx order = (False, [], Some err))"
proof (induction order)
  case Nil
  show ?case by simp
next
  case (Cons s order)
  show ?case
  proof (cases "IsActor (Actors pred) prctx s")
    case (Inl err)
    then show ?thesis by simp
  next
    case (Inr member)
    show ?thesis
    proof (cases member)
      case True
      with Inr Cons.IH show ?thesis by auto
    next
      case False
      with Inr show ?thesis by simp
    qed
  qed
qed

lemma range_order_first:
  assumes "k \<in> set keys"
  shows "\<exists>order. k # order \<in> set (range_orders keys)"
proof -
  from assms obtain as bs where "keys = as @ k # bs"
    by (auto dest: split_list)
  then have "mset (k # as @ bs) = mset keys" by simp
  then have "k # as @ bs \<in> set (range_orders keys)"
    by (rule range_orders_complete)
  then show ?thesis by blast
qed

text \<open>
  C2. When every commit passes the validity primitive, \<^verbatim>\<open>HasValidSignaturesBy.Evaluate\<close>
  runs the membership loop over the distinct signers of the commits, in one of their
  orders. If every signer is a member, it returns satisfied with the empty reason. If
  some signer is not a member, every result is unsatisfied with the reason
  "Contributor <signer> does not meet the required membership conditions for signing"
  for a signer that is not a member (or the failure of a membership resolution, when one
  fails), and each signer that is not a member is named by a possible result. When \<open>c\<close>
  is the first commit that fails the validity primitive, the result is unsatisfied with
  the reason of \<open>c\<close>, whatever the later commits and the membership answers are.
\<close>

theorem HasValidSignaturesBy_Evaluate_members:
  fixes quote pred prctx commits
  defines "signers \<equiv> (\<Union>c\<in>set commits. Signer ` set_option (Signature c))"
  defines "eval \<equiv> HasValidSignaturesBy_Evaluate quote pred prctx"
  defines "unsatisfied \<equiv> \<lambda>s. Returns (False, ''Contributor '' @ quote s
             @ '' does not meet the required membership conditions for signing'', None)"
  assumes "Commits prctx = Inr commits"
  shows "((\<forall>x\<in>set commits. fst (hasValidSignature x)) \<longrightarrow>
           (\<lambda>order. Returns (check_signers quote pred prctx order))
             ` {order. distinct order \<and> set order = signers} = eval
           \<and> eval \<noteq> {}
           \<and> ((\<forall>s\<in>signers. IsActor (Actors pred) prctx s = Inr True) \<longrightarrow>
                eval = {Returns (True, [], None)})
           \<and> (\<forall>s\<in>signers. IsActor (Actors pred) prctx s = Inr False \<longrightarrow> unsatisfied s \<in> eval)
           \<and> ((\<exists>s\<in>signers. IsActor (Actors pred) prctx s = Inr False) \<longrightarrow>
                (\<forall>out\<in>eval.
                   (\<exists>s\<in>signers. IsActor (Actors pred) prctx s = Inr False \<and> out = unsatisfied s)
                   \<or> (\<exists>s\<in>signers. \<exists>err. IsActor (Actors pred) prctx s = Inl err
                        \<and> out = Returns (False, [], Some err)))))
       \<and> (commits = pre @ c # rest \<and> (\<forall>x\<in>set pre. fst (hasValidSignature x))
            \<and> \<not> fst (hasValidSignature c) \<longrightarrow>
           eval = {Returns (False, snd (hasValidSignature c), None)})"
proof (intro conjI impI)
  assume "commits = pre @ c # rest \<and> (\<forall>x\<in>set pre. fst (hasValidSignature x))
            \<and> \<not> fst (hasValidSignature c)"
  with assms(4) show "eval = {Returns (False, snd (hasValidSignature c), None)}"
    by (simp add: eval_def HasValidSignaturesBy_Evaluate_def collect_signers_invalid)
next
  assume valid: "\<forall>x\<in>set commits. fst (hasValidSignature x)"
  from collect_signers_valid [OF this, of "[]"]
  obtain keys where keys: "collect_signers commits [] = Inr keys" "set keys = signers"
      "distinct keys"
    by (auto simp: signers_def)
  have eval: "eval = (\<lambda>order. Returns (check_signers quote pred prctx order))
                       ` {order. distinct order \<and> set order = signers}"
    using assms(4) keys
    by (simp add: eval_def HasValidSignaturesBy_Evaluate_def set_range_orders_distinct)
  then show "(\<lambda>order. Returns (check_signers quote pred prctx order))
               ` {order. distinct order \<and> set order = signers} = eval" ..
  have "keys \<in> {order. distinct order \<and> set order = signers}"
    using keys by simp
  then show nonempty: "eval \<noteq> {}"
    unfolding eval by blast
  show "eval = {Returns (True, [], None)}"
    if "\<forall>s\<in>signers. IsActor (Actors pred) prctx s = Inr True"
  proof -
    have "out = Returns (True, [], None)" if "out \<in> eval" for out
      using that \<open>\<forall>s\<in>signers. IsActor (Actors pred) prctx s = Inr True\<close>
      unfolding eval by (auto simp: check_signers_members)
    with nonempty show ?thesis by auto
  qed
  show "\<forall>s\<in>signers. IsActor (Actors pred) prctx s = Inr False \<longrightarrow> unsatisfied s \<in> eval"
  proof (intro ballI impI)
    fix s
    assume s: "s \<in> signers" "IsActor (Actors pred) prctx s = Inr False"
    with keys range_order_first [of s keys]
    obtain order where order: "s # order \<in> set (range_orders keys)"
      by auto
    have "check_signers quote pred prctx (s # order) =
            (False, ''Contributor '' @ quote s
               @ '' does not meet the required membership conditions for signing'', None)"
      using s(2) by simp
    then have check: "Returns (check_signers quote pred prctx (s # order)) = unsatisfied s"
      by (simp only: unsatisfied_def)
    from order keys have "s # order \<in> {order. distinct order \<and> set order = signers}"
      by (simp add: set_range_orders_distinct)
    then have "Returns (check_signers quote pred prctx (s # order)) \<in> eval"
      unfolding eval by (rule imageI)
    with check show "unsatisfied s \<in> eval" by simp
  qed
  show "\<forall>out\<in>eval.
          (\<exists>s\<in>signers. IsActor (Actors pred) prctx s = Inr False \<and> out = unsatisfied s)
          \<or> (\<exists>s\<in>signers. \<exists>err. IsActor (Actors pred) prctx s = Inl err
               \<and> out = Returns (False, [], Some err))"
    if nonmember: "\<exists>s\<in>signers. IsActor (Actors pred) prctx s = Inr False"
  proof
    fix out
    assume "out \<in> eval"
    then obtain order where order: "set order = signers"
        "out = Returns (check_signers quote pred prctx order)"
      unfolding eval by auto
    from nonmember order(1)
    have "\<not> (\<forall>s\<in>set order. IsActor (Actors pred) prctx s = Inr True)"
      by force
    with check_signers_cases [of quote pred prctx order]
    consider s where "s \<in> set order" "IsActor (Actors pred) prctx s = Inr False"
        "check_signers quote pred prctx order =
           (False, ''Contributor '' @ quote s
              @ '' does not meet the required membership conditions for signing'', None)"
      | s err where "s \<in> set order" "IsActor (Actors pred) prctx s = Inl err"
        "check_signers quote pred prctx order = (False, [], Some err)"
      by blast
    then show "(\<exists>s\<in>signers. IsActor (Actors pred) prctx s = Inr False \<and> out = unsatisfied s)
          \<or> (\<exists>s\<in>signers. \<exists>err. IsActor (Actors pred) prctx s = Inl err
               \<and> out = Returns (False, [], Some err))"
    proof cases
      case 1
      then have "s \<in> signers" "out = unsatisfied s"
        using order by (simp_all only: unsatisfied_def)
      with 1(2) show ?thesis by blast
    next
      case 2
      then have "s \<in> signers" "out = Returns (False, [], Some err)"
        using order by simp_all
      with 2(2) show ?thesis by blast
    qed
  qed
qed

theorem HasValidSignaturesBy_Evaluate_members_witness:
  "HasValidSignaturesBy_Evaluate quote_plain (members [''alice'', ''bob''])
       (pull_request ''t'' [commit_alice, commit_bob, commit_alice])
     = {Returns (True, [], None)}
   \<and> Returns (False, ''Contributor '' @ [CHR 0x22] @ ''bob'' @ [CHR 0x22]
         @ '' does not meet the required membership conditions for signing'', None)
       \<in> HasValidSignaturesBy_Evaluate quote_plain (members [''alice''])
           (pull_request ''t'' [commit_alice, commit_bob, commit_alice])
   \<and> HasValidSignaturesBy_Evaluate quote_plain (members [])
       (pull_request ''t'' [commit_alice, commit_unsigned, commit_bob])
     = {Returns (False, ''Commit d1b2c3d4e5 has no signature'', None)}"
proof -
  let ?valid = "[commit_alice, commit_bob, commit_alice]"
  let ?invalid = "[commit_alice, commit_unsigned, commit_bob]"
  have signers: "Signer ` set_option (Signature commit_alice) = {''alice''}"
      "Signer ` set_option (Signature commit_bob) = {''bob''}"
    by (simp_all add: commit_alice_def commit_bob_def signed_by_def)
  have valid: "\<forall>x\<in>set ?valid. fst (hasValidSignature x)"
    by (simp add: example_commits_valid)
  have "HasValidSignaturesBy_Evaluate quote_plain (members [''alice'', ''bob''])
          (pull_request ''t'' ?valid) = {Returns (True, [], None)}"
    using HasValidSignaturesBy_Evaluate_members
      [of "pull_request ''t'' ?valid" ?valid quote_plain "members [''alice'', ''bob'']"
          "[]" commit_alice "[]"]
      valid
    by (simp add: signers pull_request_def members_def)
  moreover have "Returns (False, ''Contributor '' @ [CHR 0x22] @ ''bob'' @ [CHR 0x22]
         @ '' does not meet the required membership conditions for signing'', None)
       \<in> HasValidSignaturesBy_Evaluate quote_plain (members [''alice''])
           (pull_request ''t'' ?valid)"
    using HasValidSignaturesBy_Evaluate_members
      [of "pull_request ''t'' ?valid" ?valid quote_plain "members [''alice'']"
          "[]" commit_alice "[]"]
      valid
    by (simp add: signers pull_request_def members_def quote_plain_def)
  moreover have "HasValidSignaturesBy_Evaluate quote_plain (members [])
       (pull_request ''t'' ?invalid)
     = {Returns (False, ''Commit d1b2c3d4e5 has no signature'', None)}"
    using HasValidSignaturesBy_Evaluate_members
      [of "pull_request ''t'' ?invalid" ?invalid quote_plain "members []"
          "[commit_alice]" commit_unsigned "[commit_bob]"]
    by (simp add: pull_request_def example_commits_valid hasValidSignature_commit_unsigned)
  ultimately show ?thesis by blast
qed

subsection \<open>\<^verbatim>\<open>HasValidSignaturesByKeys\<close>: the two loops\<close>

lemma collect_keys_gpg:
  "\<forall>c\<in>set commits. fst (hasValidSignature c)
      \<and> map_option Type (Signature c) = Some SignatureGpg \<Longrightarrow>
   \<exists>keys. collect_keys commits acc = Inr keys
     \<and> set keys = set acc \<union> (\<Union>c\<in>set commits. KeyID ` set_option (Signature c))
     \<and> (distinct acc \<longrightarrow> distinct keys)"
proof (induction commits arbitrary: acc)
  case Nil
  show ?case by simp
next
  case (Cons c commits)
  from Cons.prems obtain sg where sg: "Signature c = Some sg" "fst (hasValidSignature c)"
      "Type sg = SignatureGpg"
    by auto
  from Cons.prems have "\<forall>c\<in>set commits. fst (hasValidSignature c)
      \<and> map_option Type (Signature c) = Some SignatureGpg"
    by simp
  from Cons.IH [OF this, of "List.insert (KeyID sg) acc"]
  obtain keys where k: "collect_keys commits (List.insert (KeyID sg) acc) = Inr keys"
      "set keys = set (List.insert (KeyID sg) acc)
         \<union> (\<Union>c\<in>set commits. KeyID ` set_option (Signature c))"
      "distinct (List.insert (KeyID sg) acc) \<longrightarrow> distinct keys"
    by blast
  have "collect_keys (c # commits) acc = Inr keys"
    using sg k(1) by (simp add: case_prod_beta)
  moreover have "set keys = set acc
      \<union> (\<Union>c'\<in>set (c # commits). KeyID ` set_option (Signature c'))"
    using k(2) sg(1) by auto
  moreover have "distinct acc \<longrightarrow> distinct keys"
    using k(3) by simp
  ultimately show ?case by blast
qed


lemma isValidKey_iff: "isValidKey key keyIDs \<longleftrightarrow> key \<in> set keyIDs"
  by (induction keyIDs) auto

lemma check_keys_find:
  "check_keys quote pred order =
     (case find (\<lambda>k. k \<notin> set (KeyIDs pred)) order of
        None \<Rightarrow> (True, [], None)
      | Some k \<Rightarrow> (False, ''Key '' @ quote k
                     @ '' does not meet the required key conditions for signing'', None))"
  by (induction order) (simp_all add: isValidKey_iff)



subsection \<open>\<^verbatim>\<open>Title\<close>: match patterns before not-match patterns\<close>

lemma anyMatches_iff: "anyMatches re s \<longleftrightarrow> (\<exists>r\<in>set re. r s)"
  by (simp add: anyMatches_def list_ex_iff)

text \<open>
  C5. \<^verbatim>\<open>Title.Evaluate\<close> returns satisfied citing a Match pattern when \<^verbatim>\<open>Matches\<close> is
  not empty and one of its patterns matches the title, whatever \<^verbatim>\<open>NotMatches\<close> is;
  otherwise it returns satisfied citing a NotMatch pattern when \<^verbatim>\<open>NotMatches\<close> is not
  empty and none of its patterns matches the title; when neither branch succeeds, and so
  when both lists are empty, it returns unsatisfied with the empty reason and no error.
\<close>

theorem Title_Evaluate_branches:
  fixes pred prctx
  defines "matched \<equiv> Matches pred \<noteq> [] \<and> (\<exists>r\<in>set (Matches pred). r (Context.Title prctx))"
  defines "not_matched \<equiv>
    NotMatches pred \<noteq> [] \<and> (\<forall>r\<in>set (NotMatches pred). \<not> r (Context.Title prctx))"
  shows "(matched \<longrightarrow>
            Title_Evaluate pred prctx = (True, ''PR Title matches a Match pattern'', None))
       \<and> (\<not> matched \<and> not_matched \<longrightarrow>
            Title_Evaluate pred prctx =
              (True, ''PR Title doesn'' @ [CHR 0x27] @ ''t match a NotMatch pattern'', None))
       \<and> (\<not> matched \<and> \<not> not_matched \<longrightarrow> Title_Evaluate pred prctx = (False, [], None))
       \<and> (Matches pred = [] \<and> NotMatches pred = [] \<longrightarrow>
            Title_Evaluate pred prctx = (False, [], None))"
proof -
  define m where "m = (\<exists>r\<in>set (Matches pred). r (Context.Title prctx))"
  define n where "n = (\<exists>r\<in>set (NotMatches pred). r (Context.Title prctx))"
  have eval: "Title_Evaluate pred prctx =
      (if Matches pred \<noteq> [] \<and> m then (True, ''PR Title matches a Match pattern'', None)
       else if NotMatches pred \<noteq> [] \<and> \<not> n
       then (True, ''PR Title doesn'' @ [CHR 0x27] @ ''t match a NotMatch pattern'', None)
       else (False, [], None))"
    unfolding Title_Evaluate_def Let_def anyMatches_iff length_greater_0_conv
    unfolding m_def [symmetric] n_def [symmetric]
    by (rule refl)
  have matched: "matched = (Matches pred \<noteq> [] \<and> m)"
    by (simp add: matched_def m_def)
  have not_matched: "not_matched = (NotMatches pred \<noteq> [] \<and> \<not> n)"
    by (simp add: not_matched_def n_def)
  show ?thesis
    by (cases m; cases n) (simp_all add: eval matched not_matched)
qed

theorem Title_Evaluate_branches_witness:
  "Title_Evaluate \<lparr>Matches = [re_feat], NotMatches = []\<rparr> (pull_request ''feat: add x'' [])
     = (True, ''PR Title matches a Match pattern'', None)
   \<and> Title_Evaluate \<lparr>Matches = [re_feat], NotMatches = []\<rparr> (pull_request ''fix: y'' [])
     = (False, [], None)
   \<and> Title_Evaluate \<lparr>Matches = [], NotMatches = [re_WIP]\<rparr> (pull_request ''WIP: draft'' [])
     = (False, [], None)
   \<and> Title_Evaluate \<lparr>Matches = [], NotMatches = [re_WIP]\<rparr> (pull_request ''ready'' [])
     = (True, ''PR Title doesn'' @ [CHR 0x27] @ ''t match a NotMatch pattern'', None)
   \<and> Title_Evaluate \<lparr>Matches = [], NotMatches = []\<rparr> (pull_request ''ready'' [])
     = (False, [], None)"
  using
    Title_Evaluate_branches
      [of "\<lparr>Matches = [re_feat], NotMatches = []\<rparr>" "pull_request ''feat: add x'' []"]
    Title_Evaluate_branches
      [of "\<lparr>Matches = [re_feat], NotMatches = []\<rparr>" "pull_request ''fix: y'' []"]
    Title_Evaluate_branches
      [of "\<lparr>Matches = [], NotMatches = [re_WIP]\<rparr>" "pull_request ''WIP: draft'' []"]
    Title_Evaluate_branches
      [of "\<lparr>Matches = [], NotMatches = [re_WIP]\<rparr>" "pull_request ''ready'' []"]
    Title_Evaluate_branches
      [of "\<lparr>Matches = [], NotMatches = []\<rparr>" "pull_request ''ready'' []"]
  by (simp add: pull_request_def re_feat_def)

subsection \<open>The empty commit list\<close>

text \<open>
  C9. When the commit fetch succeeds with no commits, \<^verbatim>\<open>HasValidSignatures(true)\<close>,
  \<^verbatim>\<open>HasValidSignaturesBy\<close> and \<^verbatim>\<open>HasValidSignaturesByKeys\<close> return satisfied with the
  empty reason and no failure, for every actor specification and every list of key
  ids, and \<^verbatim>\<open>HasValidSignatures(false)\<close> returns unsatisfied with the reason
  "All commits are signed and have valid signatures".
\<close>

theorem Evaluate_no_commits:
  assumes "Commits prctx = Inr []"
  shows "HasValidSignatures_Evaluate True prctx = (True, [], None)
       \<and> HasValidSignaturesBy_Evaluate quote actors prctx = {Returns (True, [], None)}
       \<and> HasValidSignaturesByKeys_Evaluate quote keys prctx = {Returns (True, [], None)}
       \<and> HasValidSignatures_Evaluate False prctx =
            (False, ''All commits are signed and have valid signatures'', None)"
  using assms
  by (simp add: HasValidSignatures_Evaluate_def HasValidSignaturesBy_Evaluate_def
      HasValidSignaturesByKeys_Evaluate_def)

theorem Evaluate_no_commits_witness:
  "HasValidSignatures_Evaluate True (pull_request ''t'' []) = (True, [], None)
   \<and> HasValidSignaturesBy_Evaluate quote_plain (members []) (pull_request ''t'' [])
       = {Returns (True, [], None)}
   \<and> HasValidSignaturesByKeys_Evaluate quote_plain \<lparr>KeyIDs = []\<rparr> (pull_request ''t'' [])
       = {Returns (True, [], None)}
   \<and> HasValidSignatures_Evaluate False (pull_request ''t'' [])
       = (False, ''All commits are signed and have valid signatures'', None)"
  using Evaluate_no_commits
    [of "pull_request ''t'' []" quote_plain "members []" "\<lparr>KeyIDs = []\<rparr>"]
  by (simp add: pull_request_def)

subsection \<open>Triggers\<close>

text \<open>
  C10. \<^verbatim>\<open>Trigger\<close> returns the pull-request event category for \<^verbatim>\<open>Title\<close> and the
  commit event category for \<^verbatim>\<open>HasValidSignatures\<close>, \<^verbatim>\<open>HasValidSignaturesBy\<close> and
  \<^verbatim>\<open>HasValidSignaturesByKeys\<close>, for every configuration of each predicate.
\<close>

theorem Trigger_categories:
  "Trigger (Pred_Title title) = {PullRequest}
   \<and> Trigger (Pred_HasValidSignatures required) = {Commit}
   \<and> Trigger (Pred_HasValidSignaturesBy actors) = {Commit}
   \<and> Trigger (Pred_HasValidSignaturesByKeys keys) = {Commit}"
  by (simp add: TriggerPullRequest_def TriggerCommit_def)

subsection \<open>What the loops can return\<close>

lemma HasValidSignatures_loop_result:
  "HasValidSignatures_loop pred commits = (sat, reason, err) \<Longrightarrow>
   err = None \<and> (reason \<noteq> [] \<longleftrightarrow> \<not> sat)"
proof (induction commits)
  case Nil
  then show ?case by (auto split: if_splits)
next
  case (Cons c commits)
  show ?case
  proof (cases "fst (hasValidSignature c)")
    case True
    with Cons show ?thesis by (simp add: case_prod_beta)
  next
    case False
    then have "snd (hasValidSignature c) \<noteq> []"
      by (simp add: hasValidSignature_reason)
    with False Cons.prems show ?thesis
      by (auto simp: case_prod_beta split: if_splits)
  qed
qed

lemma collect_signers_Inl:
  "collect_signers commits acc = Inl out \<Longrightarrow>
   \<exists>reason. out = Returns (False, reason, None) \<and> reason \<noteq> []"
proof (induction commits arbitrary: acc)
  case Nil
  then show ?case by simp
next
  case (Cons c commits)
  show ?case
  proof (cases "fst (hasValidSignature c)")
    case True
    then obtain sg where "Signature c = Some sg"
      by (auto simp: hasValidSignature_valid)
    with True Cons show ?thesis by (simp add: case_prod_beta)
  next
    case False
    then have "snd (hasValidSignature c) \<noteq> []"
      by (simp add: hasValidSignature_reason)
    with False Cons.prems show ?thesis
      by (auto simp: case_prod_beta)
  qed
qed

lemma collect_signers_Inr:
  "collect_signers commits acc = Inr signers \<Longrightarrow> \<forall>c\<in>set commits. fst (hasValidSignature c)"
proof (induction commits arbitrary: acc)
  case Nil
  show ?case by simp
next
  case (Cons c commits)
  from Cons.prems have valid: "fst (hasValidSignature c)"
    by (auto simp: case_prod_beta split: if_splits)
  then obtain sg where "Signature c = Some sg"
    by (auto simp: hasValidSignature_valid)
  with valid Cons show ?case by (simp add: case_prod_beta)
qed

lemma collect_keys_Inl:
  "collect_keys commits acc = Inl out \<Longrightarrow>
   \<exists>reason. out = Returns (False, reason, None) \<and> reason \<noteq> []"
proof (induction commits arbitrary: acc)
  case Nil
  then show ?case by simp
next
  case (Cons c commits)
  show ?case
  proof (cases "fst (hasValidSignature c)")
    case True
    then obtain sg where "Signature c = Some sg"
      by (auto simp: hasValidSignature_valid)
    with True Cons show ?thesis
      by (cases "Type sg") (auto simp: case_prod_beta)
  next
    case False
    then have "snd (hasValidSignature c) \<noteq> []"
      by (simp add: hasValidSignature_reason)
    with False Cons.prems show ?thesis
      by (auto simp: case_prod_beta)
  qed
qed

lemma collect_keys_Inr:
  "collect_keys commits acc = Inr keys \<Longrightarrow>
   \<forall>c\<in>set commits. fst (hasValidSignature c)
     \<and> map_option Type (Signature c) = Some SignatureGpg"
proof (induction commits arbitrary: acc)
  case Nil
  show ?case by simp
next
  case (Cons c commits)
  from Cons.prems have valid: "fst (hasValidSignature c)"
    by (auto simp: case_prod_beta split: if_splits)
  then obtain sg where sg: "Signature c = Some sg"
    by (auto simp: hasValidSignature_valid)
  with valid Cons.prems have gpg: "Type sg = SignatureGpg"
    by (cases "Type sg") (simp_all add: case_prod_beta)
  with valid sg Cons show ?case by (simp add: case_prod_beta)
qed

lemma check_signers_find:
  "check_signers quote pred prctx order =
     (case find (\<lambda>s. IsActor (Actors pred) prctx s \<noteq> Inr True) order of
        None \<Rightarrow> (True, [], None)
      | Some s \<Rightarrow>
          (case IsActor (Actors pred) prctx s of
             Inl err \<Rightarrow> (False, [], Some err)
           | Inr member \<Rightarrow> (False, ''Contributor '' @ quote s
               @ '' does not meet the required membership conditions for signing'', None)))"
proof (induction order)
  case Nil
  show ?case by simp
next
  case (Cons s order)
  show ?case
  proof (cases "IsActor (Actors pred) prctx s")
    case (Inl err)
    then show ?thesis by simp
  next
    case (Inr member)
    with Cons show ?thesis by (cases member) simp_all
  qed
qed

lemma Title_Evaluate_result:
  "Title_Evaluate pred prctx = (sat, reason, err) \<Longrightarrow> err = None \<and> (reason \<noteq> [] \<longleftrightarrow> sat)"
  unfolding Title_Evaluate_def Let_def by (auto split: if_splits)

lemma check_signers_result:
  "check_signers quote pred prctx order = (sat, reason, None) \<Longrightarrow> reason \<noteq> [] \<longleftrightarrow> \<not> sat"
  using check_signers_cases [of quote pred prctx order] by auto

lemma check_keys_result:
  "check_keys quote pred order = (sat, reason, err) \<Longrightarrow> err = None \<and> (reason \<noteq> [] \<longleftrightarrow> \<not> sat)"
  by (auto simp: check_keys_find split: option.splits)

lemma HasValidSignaturesBy_Evaluate_result:
  assumes "Returns (sat, reason, None) \<in> HasValidSignaturesBy_Evaluate quote pred prctx"
  shows "reason \<noteq> [] \<longleftrightarrow> \<not> sat"
proof (cases "Commits prctx")
  case (Inl err)
  with assms show ?thesis by (simp add: HasValidSignaturesBy_Evaluate_def)
next
  case (Inr commits)
  show ?thesis
  proof (cases "collect_signers commits []")
    case (Inl out)
    with assms Inr have "out = Returns (sat, reason, None)"
      by (simp add: HasValidSignaturesBy_Evaluate_def)
    with collect_signers_Inl [OF Inl] show ?thesis by auto
  next
    case right: (Inr signers)
    with assms Inr obtain order
      where "check_signers quote pred prctx order = (sat, reason, None)"
      by (auto simp: HasValidSignaturesBy_Evaluate_def)
    then show ?thesis by (rule check_signers_result)
  qed
qed

lemma HasValidSignaturesByKeys_Evaluate_result:
  assumes "Returns (sat, reason, None) \<in> HasValidSignaturesByKeys_Evaluate quote pred prctx"
  shows "reason \<noteq> [] \<longleftrightarrow> \<not> sat"
proof (cases "Commits prctx")
  case (Inl err)
  with assms show ?thesis by (simp add: HasValidSignaturesByKeys_Evaluate_def)
next
  case (Inr commits)
  show ?thesis
  proof (cases "collect_keys commits []")
    case (Inl out)
    with assms Inr have "out = Returns (sat, reason, None)"
      by (simp add: HasValidSignaturesByKeys_Evaluate_def)
    with collect_keys_Inl [OF Inl] show ?thesis by auto
  next
    case right: (Inr keys)
    with assms Inr obtain order
      where "check_keys quote pred order = (sat, reason, None)"
      by (auto simp: HasValidSignaturesByKeys_Evaluate_def)
    then show ?thesis by (simp add: check_keys_result)
  qed
qed

subsection \<open>The reason of a result\<close>

text \<open>
  C6, as the claim is stated, fails on \<^verbatim>\<open>Title\<close>: a satisfied result carries the reason
  "PR Title matches a Match pattern", and an unsatisfied result carries the empty reason.
\<close>

theorem Title_Evaluate_reason_counterexample:
  "Title_Evaluate \<lparr>Matches = [re_feat], NotMatches = []\<rparr> (pull_request ''feat: add x'' [])
     = (True, ''PR Title matches a Match pattern'', None)
   \<and> Title_Evaluate \<lparr>Matches = [re_feat], NotMatches = []\<rparr> (pull_request ''fix: y'' [])
     = (False, [], None)"
  by (simp add: Title_Evaluate_def anyMatches_def pull_request_def re_feat_def)

text \<open>
  C6, amended. On every context on which \<^verbatim>\<open>Evaluate\<close> returns without a failure: for
  \<^verbatim>\<open>HasValidSignatures\<close>, \<^verbatim>\<open>HasValidSignaturesBy\<close> and \<^verbatim>\<open>HasValidSignaturesByKeys\<close> the
  reason is non-empty exactly when the result is unsatisfied (the all-valid branch of
  \<^verbatim>\<open>HasValidSignatures(false)\<close> is such a result), so a satisfied result carries the
  empty reason; for \<^verbatim>\<open>Title\<close> the reason is non-empty exactly when the result is
  satisfied.
\<close>

theorem Evaluate_reason:
  assumes "Returns (sat, reason, None) \<in> Evaluate quote p prctx"
  shows "case p of
           Pred_Title title \<Rightarrow> reason \<noteq> [] \<longleftrightarrow> sat
         | Pred_HasValidSignatures required \<Rightarrow> reason \<noteq> [] \<longleftrightarrow> \<not> sat
         | Pred_HasValidSignaturesBy actors \<Rightarrow> reason \<noteq> [] \<longleftrightarrow> \<not> sat
         | Pred_HasValidSignaturesByKeys keys \<Rightarrow> reason \<noteq> [] \<longleftrightarrow> \<not> sat"
proof (cases p)
  case (Pred_Title title)
  with assms have "Title_Evaluate title prctx = (sat, reason, None)" by simp
  with Pred_Title show ?thesis by (simp add: Title_Evaluate_result)
next
  case (Pred_HasValidSignatures required)
  with assms have eval: "HasValidSignatures_Evaluate required prctx = (sat, reason, None)"
    by simp
  then obtain commits where "Commits prctx = Inr commits"
    by (cases "Commits prctx") (simp_all add: HasValidSignatures_Evaluate_def)
  with eval have "HasValidSignatures_loop required commits = (sat, reason, None)"
    by (simp add: HasValidSignatures_Evaluate_def)
  with Pred_HasValidSignatures show ?thesis
    by (simp add: HasValidSignatures_loop_result)
next
  case (Pred_HasValidSignaturesBy actors)
  with assms show ?thesis by (simp add: HasValidSignaturesBy_Evaluate_result)
next
  case (Pred_HasValidSignaturesByKeys keys)
  with assms show ?thesis by (simp add: HasValidSignaturesByKeys_Evaluate_result)
qed

theorem Evaluate_reason_witness:
  "Returns (True, ''PR Title matches a Match pattern'', None)
     \<in> Evaluate quote_plain (Pred_Title \<lparr>Matches = [re_feat], NotMatches = []\<rparr>)
         (pull_request ''feat: add x'' [])
   \<and> (''PR Title matches a Match pattern'' \<noteq> [] \<longleftrightarrow> True)
   \<and> Returns (False, ''Commit d1b2c3d4e5 has no signature'', None)
     \<in> Evaluate quote_plain (Pred_HasValidSignatures True) (pull_request ''t'' [commit_unsigned])
   \<and> (''Commit d1b2c3d4e5 has no signature'' \<noteq> [] \<longleftrightarrow> \<not> False)"
proof -
  have title: "Returns (True, ''PR Title matches a Match pattern'', None)
     \<in> Evaluate quote_plain (Pred_Title \<lparr>Matches = [re_feat], NotMatches = []\<rparr>)
         (pull_request ''feat: add x'' [])"
    by (simp add: Title_Evaluate_def anyMatches_def pull_request_def re_feat_def)
  have unsigned: "Returns (False, ''Commit d1b2c3d4e5 has no signature'', None)
     \<in> Evaluate quote_plain (Pred_HasValidSignatures True) (pull_request ''t'' [commit_unsigned])"
    by (simp add: HasValidSignatures_Evaluate_def pull_request_def
        hasValidSignature_commit_unsigned)
  show ?thesis
    using title unsigned Evaluate_reason [OF title] Evaluate_reason [OF unsigned]
    by simp
qed

subsection \<open>Failures\<close>

lemma check_signers_failure:
  "check_signers quote pred prctx order = (sat, reason, Some e) \<longleftrightarrow>
   \<not> sat \<and> reason = []
   \<and> (\<exists>s. find (\<lambda>s. IsActor (Actors pred) prctx s \<noteq> Inr True) order = Some s
          \<and> IsActor (Actors pred) prctx s = Inl e)"
  by (auto simp: check_signers_find split: option.splits sum.splits)

lemma HasValidSignaturesBy_Evaluate_failure:
  "Returns (sat, reason, Some e) \<in> HasValidSignaturesBy_Evaluate quote pred prctx \<longleftrightarrow>
   \<not> sat \<and> reason = []
   \<and> ((\<exists>err. Commits prctx = Inl err \<and> e = Wrap err ''failed to get commits'')
      \<or> (\<exists>commits. Commits prctx = Inr commits
            \<and> (\<forall>c\<in>set commits. fst (hasValidSignature c))
            \<and> (\<exists>s\<in>(\<Union>c\<in>set commits. Signer ` set_option (Signature c)).
                  IsActor (Actors pred) prctx s = Inl e)))"
proof (cases "Commits prctx")
  case (Inl err)
  then show ?thesis by (auto simp: HasValidSignaturesBy_Evaluate_def)
next
  case (Inr commits)
  show ?thesis
  proof (cases "collect_signers commits []")
    case (Inl out)
    from collect_signers_Inl [OF Inl]
    have "Returns (sat, reason, Some e) \<noteq> out" by auto
    moreover have "\<not> (\<forall>c\<in>set commits. fst (hasValidSignature c))"
      using collect_signers_valid [of commits "[]"] Inl by auto
    ultimately show ?thesis
      using Inr Inl by (auto simp: HasValidSignaturesBy_Evaluate_def)
  next
    case right: (Inr keys)
    have valid: "\<forall>c\<in>set commits. fst (hasValidSignature c)"
      using right by (rule collect_signers_Inr)
    from collect_signers_valid [OF valid, of "[]"] right
    have keys: "set keys = (\<Union>c\<in>set commits. Signer ` set_option (Signature c))"
        "distinct keys"
      by auto
    have image: "HasValidSignaturesBy_Evaluate quote pred prctx =
        (\<lambda>order. Returns (check_signers quote pred prctx order))
          ` {order. distinct order \<and> set order = set keys}"
      using Inr right keys(2)
      by (simp add: HasValidSignaturesBy_Evaluate_def set_range_orders_distinct)
    have eval: "Returns (sat, reason, Some e) \<in> HasValidSignaturesBy_Evaluate quote pred prctx
        \<longleftrightarrow> (\<exists>order. distinct order \<and> set order = set keys
               \<and> check_signers quote pred prctx order = (sat, reason, Some e))"
      (is "?L \<longleftrightarrow> ?R")
    proof
      assume ?L
      then obtain order where "distinct order" "set order = set keys"
          "Returns (sat, reason, Some e) = Returns (check_signers quote pred prctx order)"
        unfolding image by auto
      then have "distinct order \<and> set order = set keys
          \<and> check_signers quote pred prctx order = (sat, reason, Some e)"
        by simp
      then show ?R ..
    next
      assume ?R
      then obtain order where order: "order \<in> {order. distinct order \<and> set order = set keys}"
          "check_signers quote pred prctx order = (sat, reason, Some e)"
        by auto
      from order(1)
      have "Returns (check_signers quote pred prctx order)
              \<in> HasValidSignaturesBy_Evaluate quote pred prctx"
        unfolding image by (rule imageI)
      with order(2) show ?L by simp
    qed
    have "(\<exists>order. distinct order \<and> set order = set keys
               \<and> check_signers quote pred prctx order = (sat, reason, Some e))
        \<longleftrightarrow> \<not> sat \<and> reason = [] \<and> (\<exists>s\<in>set keys. IsActor (Actors pred) prctx s = Inl e)"
    proof
      assume "\<exists>order. distinct order \<and> set order = set keys
               \<and> check_signers quote pred prctx order = (sat, reason, Some e)"
      then obtain order s where "set order = set keys" "\<not> sat" "reason = []"
          "find (\<lambda>s. IsActor (Actors pred) prctx s \<noteq> Inr True) order = Some s"
          "IsActor (Actors pred) prctx s = Inl e"
        by (auto simp: check_signers_failure)
      moreover from this have "s \<in> set order"
        by (auto simp: find_Some_iff)
      ultimately show "\<not> sat \<and> reason = []
          \<and> (\<exists>s\<in>set keys. IsActor (Actors pred) prctx s = Inl e)"
        by auto
    next
      assume r: "\<not> sat \<and> reason = [] \<and> (\<exists>s\<in>set keys. IsActor (Actors pred) prctx s = Inl e)"
      then obtain s where s: "s \<in> set keys" "IsActor (Actors pred) prctx s = Inl e"
        by blast
      with range_order_first [of s keys]
      obtain order where "s # order \<in> set (range_orders keys)"
        by auto
      with keys(2) have "distinct (s # order) \<and> set (s # order) = set keys"
        by (simp add: set_range_orders_distinct)
      moreover from s(2) r
      have "check_signers quote pred prctx (s # order) = (sat, reason, Some e)"
        by simp
      ultimately show "\<exists>order. distinct order \<and> set order = set keys
               \<and> check_signers quote pred prctx order = (sat, reason, Some e)"
        by blast
    qed
    with eval keys(1) valid Inr show ?thesis by auto
  qed
qed

lemma HasValidSignaturesByKeys_Evaluate_failure:
  "Returns (sat, reason, Some e) \<in> HasValidSignaturesByKeys_Evaluate quote pred prctx \<longleftrightarrow>
   \<not> sat \<and> reason = []
   \<and> (\<exists>err. Commits prctx = Inl err \<and> e = Wrap err ''failed to get commits'')"
proof (cases "Commits prctx")
  case (Inl err)
  then show ?thesis by (auto simp: HasValidSignaturesByKeys_Evaluate_def)
next
  case (Inr commits)
  show ?thesis
  proof (cases "collect_keys commits []")
    case (Inl out)
    from collect_keys_Inl [OF Inl]
    have "Returns (sat, reason, Some e) \<noteq> out" by auto
    then show ?thesis
      using Inr Inl by (auto simp: HasValidSignaturesByKeys_Evaluate_def)
  next
    case right: (Inr keys)
    have "Returns (sat, reason, Some e)
            \<notin> (\<lambda>order. Returns (check_keys quote pred order)) ` orders" for orders
      by (auto dest: check_keys_result [OF sym])
    then show ?thesis
      using Inr right by (simp add: HasValidSignaturesByKeys_Evaluate_def)
  qed
qed

lemma HasValidSignatures_Evaluate_failure:
  "HasValidSignatures_Evaluate pred prctx = (sat, reason, Some e) \<longleftrightarrow>
   \<not> sat \<and> reason = []
   \<and> (\<exists>err. Commits prctx = Inl err \<and> e = Wrap err ''failed to get commits'')"
proof (cases "Commits prctx")
  case (Inl err)
  then show ?thesis by (auto simp: HasValidSignatures_Evaluate_def)
next
  case (Inr commits)
  have "HasValidSignatures_loop pred commits \<noteq> (sat, reason, Some e)"
    using HasValidSignatures_loop_result [of pred commits sat reason "Some e"] by auto
  with Inr show ?thesis by (simp add: HasValidSignatures_Evaluate_def)
qed

lemma Evaluate_returns: "Panics \<notin> Evaluate quote p prctx"
proof (cases p)
  case (Pred_HasValidSignaturesBy pred)
  show ?thesis
    unfolding Pred_HasValidSignaturesBy
    by (auto simp: HasValidSignaturesBy_Evaluate_def split: sum.splits
        dest: collect_signers_Inl)
next
  case (Pred_HasValidSignaturesByKeys pred)
  show ?thesis
    unfolding Pred_HasValidSignaturesByKeys
    by (auto simp: HasValidSignaturesByKeys_Evaluate_def split: sum.splits
        dest: collect_keys_Inl)
qed simp_all

text \<open>
  C7, as the claim is stated, fails where it says that the failures propagate as wrapped
  errors: \<^verbatim>\<open>HasValidSignaturesBy.Evaluate\<close> returns the error of \<^verbatim>\<open>IsActor\<close> as it is.
\<close>

theorem HasValidSignaturesBy_Evaluate_unwrapped_counterexample:
  "HasValidSignaturesBy_Evaluate quote_plain (unresolved (Error ''boom''))
       (pull_request ''t'' [commit_alice])
     = {Returns (False, [], Some (Error ''boom''))}"
  by (simp add: HasValidSignaturesBy_Evaluate_def pull_request_def unresolved_def
      example_commits_valid example_commits_signature case_prod_beta)

text \<open>
  C7, amended. \<^verbatim>\<open>Evaluate\<close> can return a failure exactly in these cases: for the three
  signature predicates, when the commit fetch fails, with the error wrapped as
  "failed to get commits"; for \<^verbatim>\<open>HasValidSignaturesBy\<close>, when every commit is valid and
  \<^verbatim>\<open>IsActor\<close> fails for one of the signers, with the error of \<^verbatim>\<open>IsActor\<close> returned as
  it is. \<^verbatim>\<open>Title\<close> never fails. The result that comes with a failure is false with the
  empty reason; an unsatisfied result has no error, so the two are distinct. A failed
  commit fetch leaves the failure as the only result, and no evaluation panics.
\<close>

theorem Evaluate_failure:
  "(Returns (sat, reason, Some e) \<in> Evaluate quote p prctx \<longleftrightarrow>
      \<not> sat \<and> reason = []
      \<and> (case p of
            Pred_Title title \<Rightarrow> False
          | Pred_HasValidSignatures required \<Rightarrow>
              (\<exists>err. Commits prctx = Inl err \<and> e = Wrap err ''failed to get commits'')
          | Pred_HasValidSignaturesBy pred \<Rightarrow>
              (\<exists>err. Commits prctx = Inl err \<and> e = Wrap err ''failed to get commits'')
              \<or> (\<exists>commits. Commits prctx = Inr commits
                    \<and> (\<forall>c\<in>set commits. fst (hasValidSignature c))
                    \<and> (\<exists>s\<in>(\<Union>c\<in>set commits. Signer ` set_option (Signature c)).
                          IsActor (Actors pred) prctx s = Inl e))
          | Pred_HasValidSignaturesByKeys pred \<Rightarrow>
              (\<exists>err. Commits prctx = Inl err \<and> e = Wrap err ''failed to get commits'')))
   \<and> (Commits prctx = Inl err \<and> (\<forall>title. p \<noteq> Pred_Title title) \<longrightarrow>
        Evaluate quote p prctx = {Returns (False, [], Some (Wrap err ''failed to get commits''))})
   \<and> Panics \<notin> Evaluate quote p prctx"
proof (intro conjI)
  show "Panics \<notin> Evaluate quote p prctx"
    by (rule Evaluate_returns)
next
  show "Commits prctx = Inl err \<and> (\<forall>title. p \<noteq> Pred_Title title) \<longrightarrow>
        Evaluate quote p prctx = {Returns (False, [], Some (Wrap err ''failed to get commits''))}"
    by (cases p)
      (simp_all add: HasValidSignatures_Evaluate_def HasValidSignaturesBy_Evaluate_def
        HasValidSignaturesByKeys_Evaluate_def)
next
  show "Returns (sat, reason, Some e) \<in> Evaluate quote p prctx \<longleftrightarrow>
      \<not> sat \<and> reason = []
      \<and> (case p of
            Pred_Title title \<Rightarrow> False
          | Pred_HasValidSignatures required \<Rightarrow>
              (\<exists>err. Commits prctx = Inl err \<and> e = Wrap err ''failed to get commits'')
          | Pred_HasValidSignaturesBy pred \<Rightarrow>
              (\<exists>err. Commits prctx = Inl err \<and> e = Wrap err ''failed to get commits'')
              \<or> (\<exists>commits. Commits prctx = Inr commits
                    \<and> (\<forall>c\<in>set commits. fst (hasValidSignature c))
                    \<and> (\<exists>s\<in>(\<Union>c\<in>set commits. Signer ` set_option (Signature c)).
                          IsActor (Actors pred) prctx s = Inl e))
          | Pred_HasValidSignaturesByKeys pred \<Rightarrow>
              (\<exists>err. Commits prctx = Inl err \<and> e = Wrap err ''failed to get commits''))"
  proof (cases p)
    case (Pred_Title title)
    have "Title_Evaluate title prctx \<noteq> (sat, reason, Some e)"
      using Title_Evaluate_result [of title prctx sat reason "Some e"] by auto
    with Pred_Title show ?thesis by simp
  next
    case (Pred_HasValidSignatures required)
    with HasValidSignatures_Evaluate_failure [of required prctx sat reason e]
    show ?thesis by auto
  next
    case (Pred_HasValidSignaturesBy pred)
    then show ?thesis
      by (simp only: Evaluate.simps Predicate.case HasValidSignaturesBy_Evaluate_failure)
  next
    case (Pred_HasValidSignaturesByKeys pred)
    then show ?thesis
      by (simp only: Evaluate.simps Predicate.case HasValidSignaturesByKeys_Evaluate_failure)
  qed
qed

theorem Evaluate_failure_witness:
  "Returns (False, [], Some (Wrap (Error ''api'') ''failed to get commits''))
     \<in> Evaluate quote_plain (Pred_HasValidSignatures True) (no_commits (Error ''api''))
   \<and> Returns (False, [], Some (Error ''boom''))
     \<in> Evaluate quote_plain (Pred_HasValidSignaturesBy (unresolved (Error ''boom'')))
         (pull_request ''t'' [commit_alice, commit_bob])
   \<and> Returns (False, [], Some (Error ''boom''))
     \<notin> Evaluate quote_plain (Pred_HasValidSignaturesBy (unresolved (Error ''boom'')))
         (pull_request ''t'' [commit_alice, commit_unsigned])"
proof -
  have sig: "Signer ` set_option (Signature commit_alice) = {''alice''}"
      "Signer ` set_option (Signature commit_bob) = {''bob''}"
    by (simp_all add: commit_alice_def commit_bob_def signed_by_def)
  have "Returns (False, [], Some (Wrap (Error ''api'') ''failed to get commits''))
     \<in> Evaluate quote_plain (Pred_HasValidSignatures True) (no_commits (Error ''api''))"
    using
      Evaluate_failure
        [of False "[]" "Wrap (Error ''api'') ''failed to get commits''" quote_plain
            "Pred_HasValidSignatures True" "no_commits (Error ''api'')" "Error ''api''",
         THEN conjunct1]
    by (simp add: no_commits_def)
  moreover have "Returns (False, [], Some (Error ''boom''))
     \<in> Evaluate quote_plain (Pred_HasValidSignaturesBy (unresolved (Error ''boom'')))
         (pull_request ''t'' [commit_alice, commit_bob])"
    using
      Evaluate_failure
        [of False "[]" "Error ''boom''" quote_plain
            "Pred_HasValidSignaturesBy (unresolved (Error ''boom''))"
            "pull_request ''t'' [commit_alice, commit_bob]" "Error ''api''", THEN conjunct1]
    by (simp add: pull_request_def unresolved_def example_commits_valid sig) blast
  moreover have "Returns (False, [], Some (Error ''boom''))
     \<notin> Evaluate quote_plain (Pred_HasValidSignaturesBy (unresolved (Error ''boom'')))
         (pull_request ''t'' [commit_alice, commit_unsigned])"
    using
      Evaluate_failure
        [of False "[]" "Error ''boom''" quote_plain
            "Pred_HasValidSignaturesBy (unresolved (Error ''boom''))"
            "pull_request ''t'' [commit_alice, commit_unsigned]" "Error ''api''",
         THEN conjunct1]
    by (simp add: pull_request_def unresolved_def example_commits_valid)
  ultimately show ?thesis by blast
qed

subsection \<open>Repeated evaluation\<close>

lemma check_signers_first:
  "check_signers quote pred prctx order =
     (case find (\<lambda>s. IsActor (Actors pred) prctx s \<noteq> Inr True) order of
        None \<Rightarrow> (True, [], None)
      | Some s \<Rightarrow> check_signers quote pred prctx [s])"
proof (induction order)
  case Nil
  show ?case by simp
next
  case (Cons s order)
  show ?case
  proof (cases "IsActor (Actors pred) prctx s")
    case (Inl err)
    then show ?thesis by simp
  next
    case (Inr member)
    with Cons show ?thesis by (cases member) simp_all
  qed
qed

lemma check_keys_first:
  "check_keys quote pred order =
     (case find (\<lambda>k. k \<notin> set (KeyIDs pred)) order of
        None \<Rightarrow> (True, [], None)
      | Some k \<Rightarrow> check_keys quote pred [k])"
  by (induction order) (simp_all add: isValidKey_iff)

text \<open>
  A loop over the orders of a map that stops at the first key with \<open>P\<close>: its results
  over all orders are one result exactly when the keys with \<open>P\<close> give the same result.
\<close>

lemma orders_unique_iff:
  fixes g :: "'a list \<Rightarrow> 'b"
  assumes first: "\<And>order. g order = (case find P order of None \<Rightarrow> d | Some k \<Rightarrow> g [k])"
    and "distinct keys"
  shows "(\<exists>out. g ` {order. distinct order \<and> set order = set keys} = {out})
     \<longleftrightarrow> (\<forall>a\<in>set keys. \<forall>b\<in>set keys. P a \<and> P b \<longrightarrow> g [a] = g [b])"
    (is "?unique \<longleftrightarrow> ?agree")
proof
  let ?orders = "{order. distinct order \<and> set order = set keys}"
  assume ?unique
  then obtain out where out: "g ` ?orders = {out}" ..
  have reported: "g [a] = out" if "a \<in> set keys" "P a" for a
  proof -
    from that(1) range_order_first [of a keys]
    obtain order where "a # order \<in> set (range_orders keys)" by auto
    with assms(2) have "a # order \<in> ?orders"
      by (simp add: set_range_orders_distinct)
    then have "g (a # order) \<in> g ` ?orders" by (rule imageI)
    moreover from that(2) have "g (a # order) = g [a]"
      by (subst first) simp
    ultimately show ?thesis using out by simp
  qed
  show ?agree
  proof (intro ballI impI)
    fix a b
    assume "a \<in> set keys" "b \<in> set keys" "P a \<and> P b"
    then have "g [a] = out" "g [b] = out" by (simp_all add: reported)
    then show "g [a] = g [b]" by simp
  qed
next
  let ?orders = "{order. distinct order \<and> set order = set keys}"
  assume agree: ?agree
  have same: "g x = g keys" if "x \<in> ?orders" for x
  proof (cases "find P x")
    case None
    then have "\<forall>k\<in>set x. \<not> P k" by (simp add: find_None_iff)
    with that have "find P keys = None" by (simp add: find_None_iff)
    with None show ?thesis by (simp add: first [of x] first [of keys])
  next
    case (Some a)
    then have a: "a \<in> set x" "P a" by (auto simp: find_Some_iff)
    with that obtain b where b: "find P keys = Some b"
      by (cases "find P keys") (auto simp: find_None_iff)
    then have "b \<in> set keys" "P b" by (auto simp: find_Some_iff)
    moreover from a(1) that have "a \<in> set keys" by simp
    ultimately have "g [a] = g [b]" using a(2) agree by blast
    with Some b show ?thesis by (simp add: first [of x] first [of keys])
  qed
  have "keys \<in> ?orders" using assms(2) by simp
  then have "g keys \<in> g ` ?orders" by (rule imageI)
  with same have "g ` ?orders = {g keys}" by auto
  then show ?unique ..
qed

lemma HasValidSignaturesBy_Evaluate_unique_iff:
  assumes "Commits prctx = Inr commits"
  shows "(\<exists>out. HasValidSignaturesBy_Evaluate quote pred prctx = {out}) \<longleftrightarrow>
     ((\<forall>c\<in>set commits. fst (hasValidSignature c)) \<longrightarrow>
      (\<forall>s\<in>(\<Union>c\<in>set commits. Signer ` set_option (Signature c)).
       \<forall>s'\<in>(\<Union>c\<in>set commits. Signer ` set_option (Signature c)).
         IsActor (Actors pred) prctx s \<noteq> Inr True \<and> IsActor (Actors pred) prctx s' \<noteq> Inr True
         \<longrightarrow> check_signers quote pred prctx [s] = check_signers quote pred prctx [s']))"
proof (cases "collect_signers commits []")
  case (Inl out)
  have "\<not> (\<forall>c\<in>set commits. fst (hasValidSignature c))"
    using collect_signers_valid [of commits "[]"] Inl by auto
  moreover from assms Inl have "HasValidSignaturesBy_Evaluate quote pred prctx = {out}"
    by (simp add: HasValidSignaturesBy_Evaluate_def)
  ultimately show ?thesis by blast
next
  case (Inr keys)
  then have valid: "\<forall>c\<in>set commits. fst (hasValidSignature c)"
    by (rule collect_signers_Inr)
  from collect_signers_valid [OF valid, of "[]"] Inr
  have keys: "set keys = (\<Union>c\<in>set commits. Signer ` set_option (Signature c))"
      "distinct keys"
    by auto
  let ?g = "\<lambda>order. Returns (check_signers quote pred prctx order)"
  have image: "HasValidSignaturesBy_Evaluate quote pred prctx =
      ?g ` {order. distinct order \<and> set order = set keys}"
    using assms Inr keys(2)
    by (simp add: HasValidSignaturesBy_Evaluate_def set_range_orders_distinct)
  have first: "?g order =
      (case find (\<lambda>s. IsActor (Actors pred) prctx s \<noteq> Inr True) order of
         None \<Rightarrow> Returns (True, [], None) | Some s \<Rightarrow> ?g [s])" for order
    by (subst check_signers_first) (simp split: option.splits)
  have "(\<exists>out. ?g ` {order. distinct order \<and> set order = set keys} = {out}) \<longleftrightarrow>
      (\<forall>a\<in>set keys. \<forall>b\<in>set keys.
         IsActor (Actors pred) prctx a \<noteq> Inr True \<and> IsActor (Actors pred) prctx b \<noteq> Inr True
         \<longrightarrow> ?g [a] = ?g [b])"
    using first keys(2) by (rule orders_unique_iff)
  then show ?thesis
    unfolding image keys(1) using valid by simp
qed

lemma HasValidSignaturesByKeys_Evaluate_unique_iff:
  assumes "Commits prctx = Inr commits"
  shows "(\<exists>out. HasValidSignaturesByKeys_Evaluate quote pred prctx = {out}) \<longleftrightarrow>
     ((\<forall>c\<in>set commits. fst (hasValidSignature c)
          \<and> map_option Type (Signature c) = Some SignatureGpg) \<longrightarrow>
      (\<forall>k\<in>(\<Union>c\<in>set commits. KeyID ` set_option (Signature c)).
       \<forall>k'\<in>(\<Union>c\<in>set commits. KeyID ` set_option (Signature c)).
         k \<notin> set (KeyIDs pred) \<and> k' \<notin> set (KeyIDs pred)
         \<longrightarrow> check_keys quote pred [k] = check_keys quote pred [k']))"
proof (cases "collect_keys commits []")
  case (Inl out)
  have "\<not> (\<forall>c\<in>set commits. fst (hasValidSignature c)
          \<and> map_option Type (Signature c) = Some SignatureGpg)"
    using collect_keys_gpg [of commits "[]"] Inl by auto
  moreover from assms Inl have "HasValidSignaturesByKeys_Evaluate quote pred prctx = {out}"
    by (simp add: HasValidSignaturesByKeys_Evaluate_def)
  ultimately show ?thesis by blast
next
  case (Inr keys)
  then have gpg: "\<forall>c\<in>set commits. fst (hasValidSignature c)
      \<and> map_option Type (Signature c) = Some SignatureGpg"
    by (rule collect_keys_Inr)
  from collect_keys_gpg [OF gpg, of "[]"] Inr
  have keys: "set keys = (\<Union>c\<in>set commits. KeyID ` set_option (Signature c))"
      "distinct keys"
    by auto
  let ?g = "\<lambda>order. Returns (check_keys quote pred order)"
  have image: "HasValidSignaturesByKeys_Evaluate quote pred prctx =
      ?g ` {order. distinct order \<and> set order = set keys}"
    using assms Inr keys(2)
    by (simp add: HasValidSignaturesByKeys_Evaluate_def set_range_orders_distinct)
  have first: "?g order =
      (case find (\<lambda>k. k \<notin> set (KeyIDs pred)) order of
         None \<Rightarrow> Returns (True, [], None) | Some k \<Rightarrow> ?g [k])" for order
    by (subst check_keys_first) (simp split: option.splits)
  have "(\<exists>out. ?g ` {order. distinct order \<and> set order = set keys} = {out}) \<longleftrightarrow>
      (\<forall>a\<in>set keys. \<forall>b\<in>set keys.
         a \<notin> set (KeyIDs pred) \<and> b \<notin> set (KeyIDs pred) \<longrightarrow> ?g [a] = ?g [b])"
    using first keys(2) by (rule orders_unique_iff)
  then show ?thesis
    unfolding image keys(1) using gpg by simp
qed

text \<open>
  C8, as the claim is stated, fails when several distinct signers or keys fail their
  check: the loop over the map reports the first one in the order of the \<^verbatim>\<open>range\<close>,
  which the language leaves open, so that two evaluations of the same predicate on the
  same context can return different reasons.
\<close>

theorem Evaluate_order_counterexample:
  "Returns (False, ''Contributor '' @ [CHR 0x22] @ ''alice'' @ [CHR 0x22]
       @ '' does not meet the required membership conditions for signing'', None)
     \<in> HasValidSignaturesBy_Evaluate quote_plain (members [])
         (pull_request ''t'' [commit_alice, commit_bob])
   \<and> Returns (False, ''Contributor '' @ [CHR 0x22] @ ''bob'' @ [CHR 0x22]
       @ '' does not meet the required membership conditions for signing'', None)
     \<in> HasValidSignaturesBy_Evaluate quote_plain (members [])
         (pull_request ''t'' [commit_alice, commit_bob])
   \<and> Returns (False, ''Key '' @ [CHR 0x22] @ ''AAAA1111'' @ [CHR 0x22]
       @ '' does not meet the required key conditions for signing'', None)
     \<in> HasValidSignaturesByKeys_Evaluate quote_plain \<lparr>KeyIDs = []\<rparr>
         (pull_request ''t'' [commit_alice, commit_bob])
   \<and> Returns (False, ''Key '' @ [CHR 0x22] @ ''BBBB2222'' @ [CHR 0x22]
       @ '' does not meet the required key conditions for signing'', None)
     \<in> HasValidSignaturesByKeys_Evaluate quote_plain \<lparr>KeyIDs = []\<rparr>
         (pull_request ''t'' [commit_alice, commit_bob])"
  by (simp add: HasValidSignaturesBy_Evaluate_def HasValidSignaturesByKeys_Evaluate_def
      pull_request_def members_def quote_plain_def example_commits_valid
      example_commits_signature signed_by_def case_prod_beta)

text \<open>
  C8, amended. Two evaluations of a predicate on an unchanged context (same title, same
  commits, same membership answers) return identical results, so that the evaluation has
  exactly one possible result, in every case but one: the commit fetch succeeds, every
  commit passes the first loop (it is valid; for \<^verbatim>\<open>HasValidSignaturesByKeys\<close> also
  GPG-signed), and two distinct signers that fail the membership check (two distinct key
  ids that are not in \<^verbatim>\<open>KeyIDs\<close>) are reported with different results. In particular the
  results are identical for \<^verbatim>\<open>Title\<close> and \<^verbatim>\<open>HasValidSignatures\<close>, whenever the commit
  fetch fails or some commit fails the first loop, and whenever at most one distinct
  signer or key fails its check.
\<close>

theorem Evaluate_unique:
  fixes quote p prctx
  defines "agree \<equiv>
    (case p of
       Pred_HasValidSignaturesBy pred \<Rightarrow>
         (\<forall>commits. Commits prctx = Inr commits
            \<and> (\<forall>c\<in>set commits. fst (hasValidSignature c)) \<longrightarrow>
            (\<forall>s\<in>(\<Union>c\<in>set commits. Signer ` set_option (Signature c)).
             \<forall>s'\<in>(\<Union>c\<in>set commits. Signer ` set_option (Signature c)).
               IsActor (Actors pred) prctx s \<noteq> Inr True
               \<and> IsActor (Actors pred) prctx s' \<noteq> Inr True \<longrightarrow>
               check_signers quote pred prctx [s] = check_signers quote pred prctx [s']))
     | Pred_HasValidSignaturesByKeys pred \<Rightarrow>
         (\<forall>commits. Commits prctx = Inr commits
            \<and> (\<forall>c\<in>set commits. fst (hasValidSignature c)
                  \<and> map_option Type (Signature c) = Some SignatureGpg) \<longrightarrow>
            (\<forall>k\<in>(\<Union>c\<in>set commits. KeyID ` set_option (Signature c)).
             \<forall>k'\<in>(\<Union>c\<in>set commits. KeyID ` set_option (Signature c)).
               k \<notin> set (KeyIDs pred) \<and> k' \<notin> set (KeyIDs pred) \<longrightarrow>
               check_keys quote pred [k] = check_keys quote pred [k']))
     | _ \<Rightarrow> True)"
  defines "single \<equiv>
    (case p of
       Pred_HasValidSignaturesBy pred \<Rightarrow>
         (\<forall>commits. Commits prctx = Inr commits
            \<and> (\<forall>c\<in>set commits. fst (hasValidSignature c)) \<longrightarrow>
            (\<forall>s\<in>(\<Union>c\<in>set commits. Signer ` set_option (Signature c)).
             \<forall>s'\<in>(\<Union>c\<in>set commits. Signer ` set_option (Signature c)).
               IsActor (Actors pred) prctx s \<noteq> Inr True
               \<and> IsActor (Actors pred) prctx s' \<noteq> Inr True \<longrightarrow> s = s'))
     | Pred_HasValidSignaturesByKeys pred \<Rightarrow>
         (\<forall>commits. Commits prctx = Inr commits
            \<and> (\<forall>c\<in>set commits. fst (hasValidSignature c)
                  \<and> map_option Type (Signature c) = Some SignatureGpg) \<longrightarrow>
            (\<forall>k\<in>(\<Union>c\<in>set commits. KeyID ` set_option (Signature c)).
             \<forall>k'\<in>(\<Union>c\<in>set commits. KeyID ` set_option (Signature c)).
               k \<notin> set (KeyIDs pred) \<and> k' \<notin> set (KeyIDs pred) \<longrightarrow> k = k'))
     | _ \<Rightarrow> True)"
  shows "((\<exists>out. Evaluate quote p prctx = {out}) \<longleftrightarrow> agree)
       \<and> (single \<longrightarrow> (\<exists>out. Evaluate quote p prctx = {out}))"
proof -
  have iff: "(\<exists>out. Evaluate quote p prctx = {out}) \<longleftrightarrow> agree"
  proof (cases p)
    case (Pred_Title title)
    then show ?thesis by (simp add: agree_def)
  next
    case (Pred_HasValidSignatures required)
    then show ?thesis by (simp add: agree_def)
  next
    case (Pred_HasValidSignaturesBy pred)
    show ?thesis
    proof (cases "Commits prctx")
      case (Inl err)
      with Pred_HasValidSignaturesBy show ?thesis
        by (simp add: agree_def HasValidSignaturesBy_Evaluate_def)
    next
      case (Inr cs)
      from HasValidSignaturesBy_Evaluate_unique_iff [OF Inr, of quote pred]
      show ?thesis
        unfolding agree_def Pred_HasValidSignaturesBy using Inr by simp
    qed
  next
    case (Pred_HasValidSignaturesByKeys pred)
    show ?thesis
    proof (cases "Commits prctx")
      case (Inl err)
      with Pred_HasValidSignaturesByKeys show ?thesis
        by (simp add: agree_def HasValidSignaturesByKeys_Evaluate_def)
    next
      case (Inr cs)
      from HasValidSignaturesByKeys_Evaluate_unique_iff [OF Inr, of quote pred]
      show ?thesis
        unfolding agree_def Pred_HasValidSignaturesByKeys using Inr by simp
    qed
  qed
  have "agree" if single
  proof (cases p)
    case (Pred_HasValidSignaturesBy pred)
    from that have single:
      "\<And>commits s s'. Commits prctx = Inr commits
          \<and> (\<forall>c\<in>set commits. fst (hasValidSignature c)) \<Longrightarrow>
        s \<in> (\<Union>c\<in>set commits. Signer ` set_option (Signature c)) \<Longrightarrow>
        s' \<in> (\<Union>c\<in>set commits. Signer ` set_option (Signature c)) \<Longrightarrow>
        IsActor (Actors pred) prctx s \<noteq> Inr True
          \<and> IsActor (Actors pred) prctx s' \<noteq> Inr True \<Longrightarrow> s = s'"
      unfolding single_def Pred_HasValidSignaturesBy by (simp only: Predicate.case) blast
    show ?thesis
      unfolding agree_def Pred_HasValidSignaturesBy Predicate.case
    proof (intro allI impI ballI)
      fix commits s s'
      assume "Commits prctx = Inr commits \<and> (\<forall>c\<in>set commits. fst (hasValidSignature c))"
        "s \<in> (\<Union>c\<in>set commits. Signer ` set_option (Signature c))"
        "s' \<in> (\<Union>c\<in>set commits. Signer ` set_option (Signature c))"
        "IsActor (Actors pred) prctx s \<noteq> Inr True
          \<and> IsActor (Actors pred) prctx s' \<noteq> Inr True"
      then have "s = s'" by (rule single)
      then show "check_signers quote pred prctx [s] = check_signers quote pred prctx [s']"
        by (simp only:)
    qed
  next
    case (Pred_HasValidSignaturesByKeys pred)
    from that have single:
      "\<And>commits k k'. Commits prctx = Inr commits
          \<and> (\<forall>c\<in>set commits. fst (hasValidSignature c)
                \<and> map_option Type (Signature c) = Some SignatureGpg) \<Longrightarrow>
        k \<in> (\<Union>c\<in>set commits. KeyID ` set_option (Signature c)) \<Longrightarrow>
        k' \<in> (\<Union>c\<in>set commits. KeyID ` set_option (Signature c)) \<Longrightarrow>
        k \<notin> set (KeyIDs pred) \<and> k' \<notin> set (KeyIDs pred) \<Longrightarrow> k = k'"
      unfolding single_def Pred_HasValidSignaturesByKeys by (simp only: Predicate.case) blast
    show ?thesis
      unfolding agree_def Pred_HasValidSignaturesByKeys Predicate.case
    proof (intro allI impI ballI)
      fix commits k k'
      assume "Commits prctx = Inr commits
          \<and> (\<forall>c\<in>set commits. fst (hasValidSignature c)
                \<and> map_option Type (Signature c) = Some SignatureGpg)"
        "k \<in> (\<Union>c\<in>set commits. KeyID ` set_option (Signature c))"
        "k' \<in> (\<Union>c\<in>set commits. KeyID ` set_option (Signature c))"
        "k \<notin> set (KeyIDs pred) \<and> k' \<notin> set (KeyIDs pred)"
      then have "k = k'" by (rule single)
      then show "check_keys quote pred [k] = check_keys quote pred [k']"
        by (simp only:)
    qed
  qed (simp_all add: agree_def)
  with iff show ?thesis by fast
qed

theorem Evaluate_unique_witness:
  "Evaluate quote_plain (Pred_HasValidSignaturesBy (members []))
       (pull_request ''t'' [commit_unsigned, commit_alice, commit_bob])
     = {Returns (False, ''Commit d1b2c3d4e5 has no signature'', None)}
   \<and> Evaluate quote_plain (Pred_HasValidSignaturesByKeys \<lparr>KeyIDs = []\<rparr>)
       (pull_request ''t'' [commit_ssh, commit_alice, commit_bob])
     = {Returns (False, ''Commit c1b2c3d4e5 signature is not a GPG signature'', None)}
   \<and> Evaluate quote_plain (Pred_HasValidSignaturesBy (members [''alice'']))
       (pull_request ''t'' [commit_alice, commit_bob, commit_alice])
     = {Returns (False, ''Contributor '' @ [CHR 0x22] @ ''bob'' @ [CHR 0x22]
          @ '' does not meet the required membership conditions for signing'', None)}
   \<and> \<not> (\<exists>out. Evaluate quote_plain (Pred_HasValidSignaturesBy (members []))
              (pull_request ''t'' [commit_alice, commit_bob]) = {out})
   \<and> \<not> (\<exists>out. Evaluate quote_plain (Pred_HasValidSignaturesByKeys \<lparr>KeyIDs = []\<rparr>)
              (pull_request ''t'' [commit_alice, commit_bob]) = {out})"
proof -
  let ?unsigned = "pull_request ''t'' [commit_unsigned, commit_alice, commit_bob]"
  let ?ssh = "pull_request ''t'' [commit_ssh, commit_alice, commit_bob]"
  let ?one = "pull_request ''t'' [commit_alice, commit_bob, commit_alice]"
  let ?two = "pull_request ''t'' [commit_alice, commit_bob]"
  have sha: "SHA commit_ssh = ''c1b2c3d4e5f60718293a''"
    by (simp add: commit_ssh_def)
  have "\<exists>out. Evaluate quote_plain (Pred_HasValidSignaturesBy (members [])) ?unsigned = {out}"
    by (rule Evaluate_unique [THEN conjunct1, THEN iffD2])
      (simp add: pull_request_def example_commits_valid)
  then obtain out1 where out1:
    "Evaluate quote_plain (Pred_HasValidSignaturesBy (members [])) ?unsigned = {out1}" ..
  have "Returns (False, ''Commit d1b2c3d4e5 has no signature'', None)
      \<in> Evaluate quote_plain (Pred_HasValidSignaturesBy (members [])) ?unsigned"
    by (simp add: HasValidSignaturesBy_Evaluate_def pull_request_def
        hasValidSignature_commit_unsigned)
  then have unsigned: "Evaluate quote_plain (Pred_HasValidSignaturesBy (members [])) ?unsigned
      = {Returns (False, ''Commit d1b2c3d4e5 has no signature'', None)}"
    unfolding out1 by simp
  have "\<exists>out. Evaluate quote_plain (Pred_HasValidSignaturesByKeys \<lparr>KeyIDs = []\<rparr>) ?ssh = {out}"
    by (rule Evaluate_unique [THEN conjunct1, THEN iffD2])
      (simp add: pull_request_def example_commits_valid example_commits_signature
        signed_by_def)
  then obtain out2 where out2:
    "Evaluate quote_plain (Pred_HasValidSignaturesByKeys \<lparr>KeyIDs = []\<rparr>) ?ssh = {out2}" ..
  have "Returns (False, ''Commit c1b2c3d4e5 signature is not a GPG signature'', None)
      \<in> Evaluate quote_plain (Pred_HasValidSignaturesByKeys \<lparr>KeyIDs = []\<rparr>) ?ssh"
    by (simp add: HasValidSignaturesByKeys_Evaluate_def pull_request_def
        example_commits_valid example_commits_signature signed_by_def sha
        truncateString_def case_prod_beta)
  then have ssh: "Evaluate quote_plain (Pred_HasValidSignaturesByKeys \<lparr>KeyIDs = []\<rparr>) ?ssh
      = {Returns (False, ''Commit c1b2c3d4e5 signature is not a GPG signature'', None)}"
    unfolding out2 by simp
  have "\<exists>out. Evaluate quote_plain (Pred_HasValidSignaturesBy (members [''alice''])) ?one
          = {out}"
    by (rule Evaluate_unique [THEN conjunct2, THEN mp])
      (simp add: pull_request_def members_def example_commits_signature signed_by_def)
  then obtain out3 where out3:
    "Evaluate quote_plain (Pred_HasValidSignaturesBy (members [''alice''])) ?one = {out3}" ..
  have "Returns (False, ''Contributor '' @ [CHR 0x22] @ ''bob'' @ [CHR 0x22]
          @ '' does not meet the required membership conditions for signing'', None)
      \<in> Evaluate quote_plain (Pred_HasValidSignaturesBy (members [''alice''])) ?one"
    by (simp add: HasValidSignaturesBy_Evaluate_def pull_request_def members_def
        quote_plain_def example_commits_valid example_commits_signature signed_by_def
        case_prod_beta)
  then have one: "Evaluate quote_plain (Pred_HasValidSignaturesBy (members [''alice''])) ?one
     = {Returns (False, ''Contributor '' @ [CHR 0x22] @ ''bob'' @ [CHR 0x22]
          @ '' does not meet the required membership conditions for signing'', None)}"
    unfolding out3 by simp
  have signers: "\<not> (\<exists>out. Evaluate quote_plain (Pred_HasValidSignaturesBy (members []))
              ?two = {out})"
    using Evaluate_unique
      [where p = "Pred_HasValidSignaturesBy (members [])" and prctx = ?two
         and quote = quote_plain, THEN conjunct1]
    by (simp add: pull_request_def members_def quote_plain_def example_commits_valid
        example_commits_signature signed_by_def)
  have keys: "\<not> (\<exists>out. Evaluate quote_plain (Pred_HasValidSignaturesByKeys \<lparr>KeyIDs = []\<rparr>)
              ?two = {out})"
    using Evaluate_unique
      [where p = "Pred_HasValidSignaturesByKeys \<lparr>KeyIDs = []\<rparr>" and prctx = ?two
         and quote = quote_plain, THEN conjunct1]
    by (simp add: pull_request_def quote_plain_def example_commits_valid
        example_commits_signature signed_by_def)
  from unsigned ssh one signers keys show ?thesis
    by (intro conjI)
qed

end
